(* ===== verification/OFC_Prelude.thy ===== *)
theory OFC_Prelude
  imports Main "HOL-Library.Word" "HOL-Library.Monad_Syntax"
begin

text \<open>
  The prelude of the development: the C types the platform layer uses, the calls it makes
  to code outside this repository, the heap of its own structures, and the automation that
  the component theories share.

  \<^bold>\<open>The outside world.\<close> The files under src/ are a thin layer between OpenFiles' core
  (handles, heap, queues, timers) and the Android kernel and C library. None of that code is
  in the repository, so it is a parameter: an environment answers every outgoing call, and its
  answer may depend on the whole history of calls and answers so far. Nothing is assumed of the
  answers here. A property that relies on documented behaviour of the outside (a handle locks
  to the pointer it was created with, a pipe is a queue) names that as a hypothesis.

  \<^bold>\<open>The C machine.\<close> A function of the source becomes a HOL function from the environment,
  its arguments and the state to an \<open>option\<close>: \<open>None\<close> is undefined behaviour of C (a
  null or dangling pointer is followed, an object is read outside its bounds or before it is
  written). The state holds the history, newest call first, and one heap per structure type.
\<close>

unbundle bit_operations_syntax

section \<open>C types\<close>

type_synonym byte = "8 word"
type_synonym ptr = "64 word"
type_synonym handle = "64 word"

abbreviation (input) OFC_NULL :: ptr where "OFC_NULL \<equiv> 0"

text \<open>
  The wait set casts the null pointer that ends a queue to a handle and compares it with
  \<open>OFC_HANDLE_NULL\<close>, so the two are the same bit pattern.
\<close>

abbreviation (input) OFC_HANDLE_NULL :: handle where "OFC_HANDLE_NULL \<equiv> 0"

datatype handle_type =
    OFC_HANDLE_WAIT_SET | OFC_HANDLE_SCHED | OFC_HANDLE_APP | OFC_HANDLE_THREAD
  | OFC_HANDLE_PIPE | OFC_HANDLE_MAILSLOT | OFC_HANDLE_FSWIN32_FILE
  | OFC_HANDLE_FSANDROID_FILE | OFC_HANDLE_QUEUE | OFC_HANDLE_WAIT_QUEUE | OFC_HANDLE_FILE
  | OFC_HANDLE_SOCKET | OFC_HANDLE_SOCKET_IMPL | OFC_HANDLE_FSRESOLVER_OVERLAPPED
  | OFC_HANDLE_FSANDROID_OVERLAPPED | OFC_HANDLE_FSSMB_OVERLAPPED | OFC_HANDLE_EVENT
  | OFC_HANDLE_TIMER | OFC_HANDLE_PROCESS | OFC_HANDLE_OTHER nat

datatype event_type = OFC_EVENT_AUTO | OFC_EVENT_MANUAL

datatype detachstate = OFC_THREAD_DETACH | OFC_THREAD_JOIN

datatype ofc_family = OFC_FAMILY_IP | OFC_FAMILY_IPV6 | OFC_FAMILY_OTHER nat

datatype sock_type = SOCKET_TYPE_STREAM | SOCKET_TYPE_DGRAM | SOCKET_TYPE_ICMP | SOCKET_TYPE_OTHER nat

text \<open>
  \<open>OFC_IPADDR\<close>: a version and a union. The members of the union are separate fields here;
  every reader in the source selects the member by \<open>ip_version\<close> before it reads.
\<close>

record ipaddr =
  ip_version :: ofc_family
  ipv4_addr :: "32 word"
  s6_addr :: "byte list"
  ipv6_scope :: "32 word"

text \<open>Constants of the Linux (Android) system headers.\<close>

abbreviation (input) AF_INET :: int where "AF_INET \<equiv> 2"
abbreviation (input) AF_INET6 :: int where "AF_INET6 \<equiv> 10"
abbreviation (input) SOCK_STREAM :: int where "SOCK_STREAM \<equiv> 1"
abbreviation (input) SOCK_DGRAM :: int where "SOCK_DGRAM \<equiv> 2"
abbreviation (input) SOCK_RAW :: int where "SOCK_RAW \<equiv> 3"
abbreviation (input) IPPROTO_ICMP :: int where "IPPROTO_ICMP \<equiv> 1"
abbreviation (input) IPPROTO_TCP :: int where "IPPROTO_TCP \<equiv> 6"
abbreviation (input) IPPROTO_UDP :: int where "IPPROTO_UDP \<equiv> 17"
abbreviation (input) IPPROTO_ICMPV6 :: int where "IPPROTO_ICMPV6 \<equiv> 58"
abbreviation (input) EAGAIN :: int where "EAGAIN \<equiv> 11"
abbreviation (input) EINPROGRESS :: int where "EINPROGRESS \<equiv> 115"
abbreviation (input) O_NONBLOCK :: "32 word" where "O_NONBLOCK \<equiv> 2048"
abbreviation (input) POLLIN :: "16 word" where "POLLIN \<equiv> 1"
abbreviation (input) POLLPRI :: "16 word" where "POLLPRI \<equiv> 2"
abbreviation (input) POLLOUT :: "16 word" where "POLLOUT \<equiv> 4"
abbreviation (input) POLLERR :: "16 word" where "POLLERR \<equiv> 8"
abbreviation (input) POLLHUP :: "16 word" where "POLLHUP \<equiv> 16"
abbreviation (input) STDOUT_FILENO :: int where "STDOUT_FILENO \<equiv> 1"
abbreviation (input) SIGPIPE :: int where "SIGPIPE \<equiv> 13"
abbreviation (input) SIGTERM :: int where "SIGTERM \<equiv> 15"
abbreviation (input) IFF_UP :: "16 word" where "IFF_UP \<equiv> 1"
abbreviation (input) IFF_LOOPBACK :: "16 word" where "IFF_LOOPBACK \<equiv> 8"

text \<open>C's conversion of a \<open>size_t\<close> to \<open>int\<close>, and of an \<open>int\<close> to \<open>size_t\<close>.\<close>

definition int_of_size :: "64 word \<Rightarrow> int" where
  "int_of_size n = sint (ucast n :: 32 word)"

definition size_of_int :: "int \<Rightarrow> 64 word" where
  "size_of_int i = word_of_int i"

section \<open>Calls to the outside\<close>

record pollfd =
  pfd :: int
  poll_events :: "16 word"

text \<open>An entry of \<open>SIOCGIFCONF\<close>: the name's bytes and the family of its address.\<close>

record ifreq =
  ifr_name :: "byte list"
  ifr_family :: "16 word"

text \<open>The heap and handle packages of OpenFiles' core.\<close>

datatype (plugins only: code size) hcall =
    Malloc
  | Free ptr
  | Realloc ptr
  | HandleCreate handle_type "64 word"
  | HandleLock handle
  | HandleUnlock handle
  | HandleDestroy handle
  | HandleGetType handle
  | HandleGetWaitSet handle
  | HandleSetApp handle handle handle

text \<open>
  System calls. \<open>Indeterminate\<close> is not a call: it asks for the value of a variable the
  source reads before it writes it.
\<close>

datatype (plugins only: code size) sockopt = SO_BROADCAST | SO_REUSEADDR | SO_SNDBUF | SO_RCVBUF

datatype (plugins only: code size) syscall =
    SysSocket int int int
  | SysSetsockopt int sockopt int
  | SysBind int "byte list"
  | SysClose int
  | SysConnect int "byte list"
  | SysListen int int
  | SysAccept int nat
  | SysGetpeername int nat
  | SysGetsockname int nat
  | SysGetFl int
  | SysSetFl int "32 word"
  | SysSend int "byte list" int
  | SysSendto int "byte list" int "byte list"
  | SysRecv int int
  | SysRecvfrom int int nat
  | SysPipe
  | SysRead int
  | SysWrite int handle
  | SysPoll "pollfd list" int
  | Indeterminate

text \<open>System calls about interfaces and names, clocks, processes, and the files of the log.\<close>

datatype (plugins only: code size) netcall =
    SysIfconf int nat
  | SysIfflags int "byte list"
  | SysIfaddr int "byte list"
  | SysIfnetmask int "byte list"
  | SysIfbrdaddr int "byte list"
  | SysGethostbyname "byte list"
  | SysSignalIgnore int
  | ResInit
  | ResSearch "byte list" int
  | NsInitparse int
  | NsMsgCount
  | NsParserr nat
  | DnExpand nat int

datatype (plugins only: code size) clockcall =
    SysGettimeofday
  | SysTime
  | SysLocaltime int
  | SysGetrusage
  | SysSleep int
  | SysUsleep "32 word"

datatype (plugins only: code size) proccall =
    SysGetpid
  | SysBlockSignal int
  | SysUnblockSignal int
  | SysSigaction int ptr
  | SysVfork
  | SysFork
  | SysGetpwnam ptr
  | SysSetgid int
  | SysSetuid int
  | SysExecve ptr "ptr list"
  | SysExit int
  | SysWaitpid int
  | SysKill int int
  | SysDlIterate

datatype (plugins only: code size) filecall =
    SysOpen "byte list"
  | SysFstat int
  | SysFsync int
  | SysWriteBytes int "byte list"
  | SysFgets "64 word"
  | SysGetenv string

text \<open>
  POSIX threads: a mutex, its attributes or a condition variable is named by the structure it
  is in, a started thread by the structure it was given as its argument.
\<close>

datatype (plugins only: code size) pcall =
    MutexattrInit ptr
  | MutexattrErrorcheck ptr
  | MutexattrRecursive ptr
  | MutexattrDestroy ptr
  | MutexInit ptr
  | MutexDestroy ptr
  | MutexLock ptr
  | MutexTrylock ptr
  | MutexUnlock ptr
  | CondInit ptr
  | CondDestroy ptr
  | CondBroadcast ptr
  | CondWait ptr
  | AttrInit
  | AttrSetDetached
  | AttrSetJoinable
  | ThreadCreate ptr
  | ThreadJoin "64 word"
  | ThreadDetach "64 word"
  | KeyCreate
  | KeyDelete "32 word"
  | KeyGet "32 word"
  | KeySet "32 word" ptr

text \<open>
  Services of OpenFiles' core. \<open>RunScheduler\<close> is the function a thread was created to run.
\<close>

datatype (plugins only: code size) ccall =
    QueueItems handle
  | QueueCreate
  | QueueDestroy ptr
  | WaitqGetEvent handle
  | WaitqEmpty handle
  | SocketGetImpl handle
  | TimerGetWaitTime handle
  | FileGetFSType handle
  | FileGetFSHandle handle
  | FSAndroidGetFD handle
  | FSAndroidOverlappedEvent handle
  | Dlsym string
  | ResolverOverlappedEvent ptr handle
  | FileOverlappedWaitQ handle
  | FileOverlappedEvent handle
  | RunScheduler ptr handle ptr
  | ProcessCrash string
  | ProcessRelativeAddr ptr
  | GetConfigDir
  | Log string
  | Tstr2cstr ptr
  | Cstr2tstr ptr
  | Tstrncpy ptr ptr "64 word"
  | Strdup "byte list"

datatype (plugins only: code size) xcall =
    Pkg hcall | Sys syscall | Pthread pcall | Core ccall
  | Net netcall | Clock clockcall | Proc proccall | File filecall

text \<open>
  An answer: the returned \<open>int\<close> and \<open>errno\<close>, a returned pointer or handle, the bytes
  or values written through pointers the caller passed (the two descriptors of a pipe, the
  seconds and microseconds of a time), a returned handle type.
\<close>

record resp =
  r_ret :: int
  r_err :: int
  r_addr :: "64 word"
  r_buf :: "byte list"
  r_pair :: "int \<times> int"
  r_pair2 :: "int \<times> int"
  r_revents :: "16 word list"
  r_items :: "handle list"
  r_ifs :: "ifreq list"
  r_hosts :: "byte list list"
  r_flags :: "16 word"
  r_type :: handle_type

type_synonym history = "(xcall \<times> resp) list"

section \<open>The structures of the platform layer and the state\<close>

text \<open>\<open>OFC_SOCKET_IMPL\<close>; \<open>None\<close> in a field is memory that was never written.\<close>

record socket_impl =
  s_socket :: int
  s_family :: "ofc_family option"
  s_events :: "16 word option"
  s_revents :: "16 word option"
  s_ip :: "ipaddr option"
  s_remote_closed :: bool

text \<open>\<open>ANDROID_EVENT\<close>; the condition variable and the mutex are named by its address.\<close>

record android_event =
  eventType :: event_type
  signalled :: bool

text \<open>
  \<open>WAIT_SET\<close> belongs to OpenFiles' core: only the fields the platform layer reads.
  \<open>ANDROID_WAIT_SET\<close> is the platform's part, the two ends of a pipe.
\<close>

record wait_set =
  ws_impl :: ptr
  hHandleQueue :: handle

record android_wait_set =
  pipe_read :: int
  pipe_write :: int

text \<open>\<open>ANDROID_THREAD\<close>; \<open>thread\<close> and \<open>ret\<close> are written when the thread starts and ends.\<close>

record android_thread =
  t_thread :: "64 word option"
  scheduler :: ptr
  t_context :: ptr
  t_ret :: "32 word option"
  deleteMe :: bool
  t_handle :: handle
  t_detachstate :: detachstate
  t_wait_set :: handle
  hNotify :: handle

text \<open>\<open>OFC_LOCK_IMPL\<close>; the mutex is named by its address, \<open>thread\<close> is never used.\<close>

record lock_impl =
  lk_caller :: ptr

text \<open>
  The state: the history, one heap per structure type, and the static variables of
  console\_android.c, process\_android.c, net\_android.c and waitset\_android.c.
\<close>

record world =
  calls :: history
  sock_mem :: "ptr \<rightharpoonup> socket_impl"
  ev_mem :: "ptr \<rightharpoonup> android_event"
  ws_mem :: "ptr \<rightharpoonup> wait_set"
  aws_mem :: "ptr \<rightharpoonup> android_wait_set"
  thr_mem :: "ptr \<rightharpoonup> android_thread"
  lock_mem :: "ptr \<rightharpoonup> lock_impl"
  g_fd :: int
  log_ix :: int
  core_load_addr :: "64 word"
  smb_load_addr :: "64 word"
  g_network_handle :: "64 word"
  overlapped_function :: ptr

text \<open>
  The environment: the function that answers calls, the byte-order macros and constants of
  OpenFiles' headers, its compile-time options, its string and time conversions, and the core's
  dispatchers back into this layer, which change the state as the functions they call do.
\<close>

type_synonym filetime = "64 word"

record env =
  respond :: "history \<Rightarrow> xcall \<Rightarrow> resp"
  NET_STON :: "16 word \<Rightarrow> byte list"
  NET_LTON :: "32 word \<Rightarrow> byte list"
  NET_NTOS :: "byte list \<Rightarrow> 16 word"
  NET_NTOL :: "byte list \<Rightarrow> 32 word"
  INADDR_ANY4 :: "32 word"
  IN6ADDR_ANY :: "byte list \<times> 32 word"
  EVENT_CLOSE :: "32 word"
  EVENT_ACCEPT :: "32 word"
  EVENT_ADDRESSCHANGE :: "32 word"
  EVENT_QOS :: "32 word"
  EVENT_READ :: "32 word"
  EVENT_WRITE :: "32 word"
  MAX_SCHED_WAIT :: int
  OFC_FST_ANDROID :: int
  queue_order :: "nat \<Rightarrow> nat list"
  core_event_test :: "handle \<Rightarrow> world \<Rightarrow> (bool \<times> world) option"
  core_event_reset :: "handle \<Rightarrow> world \<Rightarrow> world option"
  core_event_get_type :: "handle \<Rightarrow> world \<Rightarrow> (event_type \<times> world) option"
  core_event_set :: "handle \<Rightarrow> world \<Rightarrow> world option"
  core_waitset_wake :: "handle \<Rightarrow> world \<Rightarrow> world option"
  core_process_dump_libs :: "world \<Rightarrow> world option"
  cfg_fs_android :: bool
  cfg_resolver_fs :: bool
  cfg_stack_trace :: bool
  OFC_INVALID_HANDLE_VALUE :: handle
  OFC_INADDR_NONE :: "32 word"
  OFC_INFINITE :: "32 word"
  ofc_strncmp :: "byte list \<Rightarrow> byte list \<Rightarrow> nat \<Rightarrow> int"
  ofc_strncpy :: "byte list \<Rightarrow> byte list \<Rightarrow> nat \<Rightarrow> byte list"
  epoch_time_to_file_time :: "64 word \<Rightarrow> 64 word \<Rightarrow> filetime"
  file_time_to_epoch_time :: "filetime \<Rightarrow> 64 word \<times> 64 word"
  elements_to_dos_date_time ::
    "16 word \<times> 16 word \<times> 16 word \<times> 16 word \<times> 16 word \<times> 16 word \<Rightarrow> 16 word \<times> 16 word"
  dos_date_time_to_elements ::
    "16 word \<times> 16 word \<Rightarrow> 16 word \<times> 16 word \<times> 16 word \<times> 16 word \<times> 16 word \<times> 16 word"
  version_line :: "byte list"
  library_line :: "string \<Rightarrow> 64 word \<Rightarrow> byte list"
  ofc_substr :: "string \<Rightarrow> byte list \<Rightarrow> int"
  OFC_ENV_NUM :: nat

type_synonym 'a result = "('a \<times> world) option"

definition call :: "env \<Rightarrow> xcall \<Rightarrow> world \<Rightarrow> resp \<times> world" where
  "call E c w = (let r = respond E (calls w) c in (r, w\<lparr>calls := (c, r) # calls w\<rparr>))"

text \<open>Calls whose only interesting answer is a pointer, an \<open>int\<close>, or none at all.\<close>

definition call_addr :: "env \<Rightarrow> xcall \<Rightarrow> world \<Rightarrow> 64 word \<times> world" where
  "call_addr E c w = (case call E c w of (r, w) \<Rightarrow> (r_addr r, w))"

definition call_ret :: "env \<Rightarrow> xcall \<Rightarrow> world \<Rightarrow> int \<times> world" where
  "call_ret E c w = (case call E c w of (r, w) \<Rightarrow> (r_ret r, w))"

definition call_void :: "env \<Rightarrow> xcall \<Rightarrow> world \<Rightarrow> world" where
  "call_void E c w = snd (call E c w)"

text \<open>The handle package's two most frequent calls, under the source's names.\<close>

abbreviation ofc_handle_lock :: "env \<Rightarrow> handle \<Rightarrow> world \<Rightarrow> ptr \<times> world" where
  "ofc_handle_lock E h \<equiv> call_addr E (Pkg (HandleLock h))"

abbreviation ofc_handle_unlock :: "env \<Rightarrow> handle \<Rightarrow> world \<Rightarrow> world" where
  "ofc_handle_unlock E h \<equiv> call_void E (Pkg (HandleUnlock h))"

section \<open>Bytes in memory\<close>

text \<open>The bytes of a string literal.\<close>

definition bytes :: "string \<Rightarrow> byte list" where
  "bytes s = map of_char s"

text \<open>
  Reading and writing a field of a structure that is viewed as bytes. A read outside the
  object, or of bytes that were never written, is undefined.
\<close>

definition peek :: "nat \<Rightarrow> nat \<Rightarrow> byte list \<Rightarrow> byte list option" where
  "peek off n mem = (if off + n \<le> length mem then Some (take n (drop off mem)) else None)"

definition poke :: "nat \<Rightarrow> byte list \<Rightarrow> byte list \<Rightarrow> byte list" where
  "poke off bs mem = take off mem @ bs @ drop (off + length bs) mem"

text \<open>Android is little-endian: a host 16-bit and 32-bit value in memory.\<close>

definition le16 :: "16 word \<Rightarrow> byte list" where
  "le16 v = [ucast v, ucast (drop_bit 8 v)]"

definition le32 :: "32 word \<Rightarrow> byte list" where
  "le32 v = [ucast v, ucast (drop_bit 8 v), ucast (drop_bit 16 v), ucast (drop_bit 24 v)]"

definition le16_value :: "byte list \<Rightarrow> int" where
  "le16_value bs = (case bs of [b0, b1] \<Rightarrow> uint b0 + 256 * uint b1 | _ \<Rightarrow> 0)"

lemma length_poke: "off + length bs \<le> length mem \<Longrightarrow> length (poke off bs mem) = length mem"
  by (simp add: poke_def)

lemma peek_poke_same:
  "off + length bs \<le> length mem \<Longrightarrow> n = length bs \<Longrightarrow> peek off n (poke off bs mem) = Some bs"
  by (simp add: peek_def poke_def)

lemma peek_poke_before:
  assumes "off + n \<le> off'" and "off' + length bs \<le> length mem"
  shows "peek off n (poke off' bs mem) = peek off n mem"
proof -
  have "take n (drop off (take off' mem @ bs @ drop (off' + length bs) mem))
      = take n (drop off mem)"
    using assms by (auto simp: drop_take min_def)
  then show ?thesis using assms by (simp add: peek_def length_poke poke_def)
qed

lemma peek_poke_after:
  assumes "off' + length bs \<le> off" and "off' + length bs \<le> length mem"
  shows "peek off n (poke off' bs mem) = peek off n mem"
proof -
  have "drop off (take off' mem @ bs @ drop (off' + length bs) mem) = drop off mem"
    using assms by (simp add: min_def)
  then show ?thesis using assms by (simp add: peek_def length_poke poke_def)
qed

lemma peek_replicate: "off + n \<le> k \<Longrightarrow> peek off n (replicate k b) = Some (replicate n b)"
  by (simp add: peek_def)

lemmas peek_poke = peek_poke_same peek_poke_before peek_poke_after length_poke

section \<open>Automation for calls\<close>

text \<open>
  A proof never unfolds an answer: the history it was given would be copied into it, and the
  copies double with every call. The split rules below replace a call by an arbitrary answer
  \<open>r\<close> of which only \<open>answers E c w r\<close> is known, and that fact stays folded until a
  law about the environment needs it.
\<close>

definition answers :: "env \<Rightarrow> xcall \<Rightarrow> world \<Rightarrow> resp \<Rightarrow> bool" where
  "answers E c w r \<longleftrightarrow> r = respond E (calls w) c"

abbreviation logged :: "xcall \<Rightarrow> resp \<Rightarrow> world \<Rightarrow> world" where
  "logged c r w \<equiv> w\<lparr>calls := (c, r) # calls w\<rparr>"

lemma call_split:
  "P (call E c w) \<longleftrightarrow> (\<forall>r. answers E c w r \<longrightarrow> P (r, logged c r w))"
  by (simp add: call_def answers_def Let_def)

lemma call_addr_split:
  "P (call_addr E c w) \<longleftrightarrow> (\<forall>r. answers E c w r \<longrightarrow> P (r_addr r, logged c r w))"
  by (simp add: call_addr_def call_def answers_def Let_def)

lemma call_ret_split:
  "P (call_ret E c w) \<longleftrightarrow> (\<forall>r. answers E c w r \<longrightarrow> P (r_ret r, logged c r w))"
  by (simp add: call_ret_def call_def answers_def Let_def)

lemma call_unit_split:
  "P (call_void E c w) \<longleftrightarrow> (\<forall>r. answers E c w r \<longrightarrow> P (logged c r w))"
  by (simp add: call_void_def call_def answers_def Let_def)

lemmas call_splits = call_split call_addr_split call_ret_split call_unit_split

text \<open>When the answer to a call is known whatever the history, the call is a plain value.\<close>

lemma call_known:
  assumes "\<And>hist. respond E hist c = r"
  shows "call E c w = (r, logged c r w)"
    and "call_addr E c w = (r_addr r, logged c r w)"
    and "call_ret E c w = (r_ret r, logged c r w)"
  using assms by (simp_all add: call_addr_def call_ret_def call_def Let_def)

section \<open>Reasoning about results\<close>

text \<open>
  \<open>returns m Q\<close>: if the code avoids undefined behaviour, its result satisfies \<open>Q\<close>.
  \<open>yields m Q\<close>: the code avoids undefined behaviour, and its result satisfies \<open>Q\<close>.
  Both are computed along the program by the equations below, as a weakest precondition is.
\<close>

definition returns :: "'a option \<Rightarrow> ('a \<Rightarrow> bool) \<Rightarrow> bool" where
  "returns m Q \<longleftrightarrow> (\<forall>x. m = Some x \<longrightarrow> Q x)"

definition yields :: "'a option \<Rightarrow> ('a \<Rightarrow> bool) \<Rightarrow> bool" where
  "yields m Q \<longleftrightarrow> (\<exists>x. m = Some x \<and> Q x)"

named_theorems wp \<open>the program constructs under \<open>returns\<close> and \<open>yields\<close>\<close>

lemma returns_Some [wp]: "returns (Some x) Q \<longleftrightarrow> Q x"
  by (simp add: returns_def)

lemma returns_None [wp]: "returns None Q \<longleftrightarrow> True"
  by (simp add: returns_def)

lemma returns_bind [wp]: "returns (Option.bind m f) Q \<longleftrightarrow> returns m (\<lambda>x. returns (f x) Q)"
  by (cases m) (simp_all add: returns_def)

lemma yields_Some [wp]: "yields (Some x) Q \<longleftrightarrow> Q x"
  by (simp add: yields_def)

lemma yields_None [wp]: "yields None Q \<longleftrightarrow> False"
  by (simp add: yields_def)

lemma yields_bind [wp]: "yields (Option.bind m f) Q \<longleftrightarrow> yields m (\<lambda>x. yields (f x) Q)"
  by (cases m) (simp_all add: yields_def)

lemma returns_map_option [wp]: "returns (map_option f m) Q \<longleftrightarrow> returns m (\<lambda>x. Q (f x))"
  by (cases m) (simp_all add: returns_def)

lemma returns_True [wp]: "returns m (\<lambda>_. True)"
  by (simp add: returns_def)

text \<open>Reading a heap, a field that may not have been written, or bytes.\<close>

lemma returns_mem [wp]:
  "returns (sock_mem w p) Q1 \<longleftrightarrow> (\<forall>x. sock_mem w p = Some x \<longrightarrow> Q1 x)"
  "returns (ev_mem w p) Q2 \<longleftrightarrow> (\<forall>x. ev_mem w p = Some x \<longrightarrow> Q2 x)"
  "returns (ws_mem w p) Q3 \<longleftrightarrow> (\<forall>x. ws_mem w p = Some x \<longrightarrow> Q3 x)"
  "returns (aws_mem w p) Q4 \<longleftrightarrow> (\<forall>x. aws_mem w p = Some x \<longrightarrow> Q4 x)"
  "returns (thr_mem w p) Q8 \<longleftrightarrow> (\<forall>x. thr_mem w p = Some x \<longrightarrow> Q8 x)"
  "returns (lock_mem w p) Q9 \<longleftrightarrow> (\<forall>x. lock_mem w p = Some x \<longrightarrow> Q9 x)"
  "returns (t_thread t) Q10 \<longleftrightarrow> (\<forall>x. t_thread t = Some x \<longrightarrow> Q10 x)"
  "returns (s_events s) Q5 \<longleftrightarrow> (\<forall>x. s_events s = Some x \<longrightarrow> Q5 x)"
  "returns (s_revents s) Q6 \<longleftrightarrow> (\<forall>x. s_revents s = Some x \<longrightarrow> Q6 x)"
  "returns (peek off n bs) Q7 \<longleftrightarrow> (\<forall>x. peek off n bs = Some x \<longrightarrow> Q7 x)"
  by (simp_all add: returns_def)

lemma returns_I: "(\<And>x. m = Some x \<Longrightarrow> Q x) \<Longrightarrow> returns m Q"
  by (simp add: returns_def)

lemma returns_D: "returns m Q \<Longrightarrow> m = Some x \<Longrightarrow> Q x"
  by (simp add: returns_def)

lemma returns_mono: "returns m Q \<Longrightarrow> (\<And>x. Q x \<Longrightarrow> R x) \<Longrightarrow> returns m R"
  by (simp add: returns_def)

lemma yields_returns: "yields m Q \<Longrightarrow> returns m Q"
  by (auto simp: yields_def returns_def)

lemma yieldsE:
  assumes "yields m Q" obtains x where "m = Some x" and "Q x"
  using assms by (auto simp: yields_def)

lemma yields_mono: "yields m Q \<Longrightarrow> (\<And>x. Q x \<Longrightarrow> R x) \<Longrightarrow> yields m R"
  by (auto simp: yields_def)

lemma yields_and_returns: "yields m Q \<Longrightarrow> returns m R \<Longrightarrow> yields m (\<lambda>x. Q x \<and> R x)"
  by (auto simp: yields_def returns_def)

section \<open>Locks and blocks\<close>

text \<open>
  How often a handle is locked at the end of a history: a lock counts when the package returned
  a pointer for it, and only then has the source an unlock to make. How many blocks at an
  address are allocated and not yet freed.
\<close>

fun held :: "history \<Rightarrow> handle \<Rightarrow> int" where
  "held [] h = 0"
| "held ((Pkg (HandleLock h'), r) # cs) h =
     (if h' = h \<and> r_addr r \<noteq> OFC_NULL then held cs h + 1 else held cs h)"
| "held ((Pkg (HandleUnlock h'), r) # cs) h = (if h' = h then held cs h - 1 else held cs h)"
| "held (_ # cs) h = held cs h"

fun blocks :: "history \<Rightarrow> ptr \<Rightarrow> int" where
  "blocks [] p = 0"
| "blocks ((Pkg Malloc, r) # cs) p = (if r_addr r = p then blocks cs p + 1 else blocks cs p)"
| "blocks ((Pkg (Free q), r) # cs) p = (if q = p then blocks cs p - 1 else blocks cs p)"
| "blocks ((Pkg (Realloc q), r) # cs) p =
     (if r_addr r = OFC_NULL then blocks cs p
      else blocks cs p + (if r_addr r = p then 1 else 0) - (if q = p then 1 else 0))"
| "blocks (_ # cs) p = blocks cs p"

definition same_locks :: "world \<Rightarrow> world \<Rightarrow> bool" where
  "same_locks w w' \<longleftrightarrow> (\<forall>h. held (calls w') h = held (calls w) h)"

definition same_blocks :: "world \<Rightarrow> world \<Rightarrow> bool" where
  "same_blocks w w' \<longleftrightarrow> (\<forall>p. blocks (calls w') p = blocks (calls w) p)"

text \<open>States that differ in their history only.\<close>

definition same_mem :: "world \<Rightarrow> world \<Rightarrow> bool" where
  "same_mem w w' \<longleftrightarrow> w'\<lparr>calls := calls w\<rparr> = w"

lemma same_mem_refl [simp]: "same_mem w w"
  by (simp add: same_mem_def)

lemma same_mem_ignores_calls [simp]:
  "same_mem (w\<lparr>calls := cs\<rparr>) w' \<longleftrightarrow> same_mem w w'"
  "same_mem w (w'\<lparr>calls := cs\<rparr>) \<longleftrightarrow> same_mem w w'"
proof -
  show "same_mem (w\<lparr>calls := cs\<rparr>) w' \<longleftrightarrow> same_mem w w'"
    unfolding same_mem_def by (cases w; cases w') auto
  show "same_mem w (w'\<lparr>calls := cs\<rparr>) \<longleftrightarrow> same_mem w w'"
    unfolding same_mem_def by simp
qed

text \<open>An update of a heap commutes with a call: the call goes outermost, where it is ignored.\<close>

lemma same_mem_heap [simp]:
  "same_mem (w\<lparr>calls := cs, sock_mem := m_sock_mem\<rparr>) w' \<longleftrightarrow> same_mem (w\<lparr>sock_mem := m_sock_mem\<rparr>) w'"
  "same_mem w' (w\<lparr>calls := cs, sock_mem := m_sock_mem\<rparr>) \<longleftrightarrow> same_mem w' (w\<lparr>sock_mem := m_sock_mem\<rparr>)"
  "same_mem (w\<lparr>calls := cs, ev_mem := m_ev_mem\<rparr>) w' \<longleftrightarrow> same_mem (w\<lparr>ev_mem := m_ev_mem\<rparr>) w'"
  "same_mem w' (w\<lparr>calls := cs, ev_mem := m_ev_mem\<rparr>) \<longleftrightarrow> same_mem w' (w\<lparr>ev_mem := m_ev_mem\<rparr>)"
  "same_mem (w\<lparr>calls := cs, ws_mem := m_ws_mem\<rparr>) w' \<longleftrightarrow> same_mem (w\<lparr>ws_mem := m_ws_mem\<rparr>) w'"
  "same_mem w' (w\<lparr>calls := cs, ws_mem := m_ws_mem\<rparr>) \<longleftrightarrow> same_mem w' (w\<lparr>ws_mem := m_ws_mem\<rparr>)"
  "same_mem (w\<lparr>calls := cs, aws_mem := m_aws_mem\<rparr>) w' \<longleftrightarrow> same_mem (w\<lparr>aws_mem := m_aws_mem\<rparr>) w'"
  "same_mem w' (w\<lparr>calls := cs, aws_mem := m_aws_mem\<rparr>) \<longleftrightarrow> same_mem w' (w\<lparr>aws_mem := m_aws_mem\<rparr>)"
  "same_mem (w\<lparr>calls := cs, thr_mem := m_thr_mem\<rparr>) w' \<longleftrightarrow> same_mem (w\<lparr>thr_mem := m_thr_mem\<rparr>) w'"
  "same_mem w' (w\<lparr>calls := cs, thr_mem := m_thr_mem\<rparr>) \<longleftrightarrow> same_mem w' (w\<lparr>thr_mem := m_thr_mem\<rparr>)"
  "same_mem (w\<lparr>calls := cs, lock_mem := m_lock_mem\<rparr>) w' \<longleftrightarrow> same_mem (w\<lparr>lock_mem := m_lock_mem\<rparr>) w'"
  "same_mem w' (w\<lparr>calls := cs, lock_mem := m_lock_mem\<rparr>) \<longleftrightarrow> same_mem w' (w\<lparr>lock_mem := m_lock_mem\<rparr>)"
  unfolding same_mem_def by (cases w; cases w'; auto)+

lemma same_memD:
  assumes "same_mem w w'"
  shows "sock_mem w' = sock_mem w" "ev_mem w' = ev_mem w" "ws_mem w' = ws_mem w"
    "aws_mem w' = aws_mem w" "thr_mem w' = thr_mem w" "lock_mem w' = lock_mem w"
proof -
  have w: "w = w'\<lparr>calls := calls w\<rparr>"
    using assms by (simp add: same_mem_def)
  show "sock_mem w' = sock_mem w" "ev_mem w' = ev_mem w" "ws_mem w' = ws_mem w"
    "aws_mem w' = aws_mem w" "thr_mem w' = thr_mem w" "lock_mem w' = lock_mem w"
    by (subst w, simp)+
qed

lemma same_mem_trans: "same_mem a b \<Longrightarrow> same_mem b c \<Longrightarrow> same_mem a c"
proof -
  assume "same_mem a b" "same_mem b c"
  then have "b = c\<lparr>calls := calls b\<rparr>" "a = b\<lparr>calls := calls a\<rparr>"
    by (simp_all add: same_mem_def)
  then have "a = c\<lparr>calls := calls b\<rparr>\<lparr>calls := calls a\<rparr>"
    by metis
  then show ?thesis by (simp add: same_mem_def)
qed

lemma same_locks_refl [simp]: "same_locks w w"
  by (simp add: same_locks_def)

lemma same_locks_trans: "same_locks a b \<Longrightarrow> same_locks b c \<Longrightarrow> same_locks a c"
  by (simp add: same_locks_def)

text \<open>
  Any number of operations, one after the other. The contract of an operation on handles is
  that it leaves every handle locked as often as it found it; then so does every sequence, and
  a sequence that starts with nothing locked ends with nothing locked.
\<close>

primrec run_ops :: "('op \<Rightarrow> world \<Rightarrow> world option) \<Rightarrow> 'op list \<Rightarrow> world \<Rightarrow> world option" where
  "run_ops step [] w = Some w"
| "run_ops step (op # ops) w = do { w \<leftarrow> step op w; run_ops step ops w }"

lemma run_ops_invariant:
  assumes step: "\<And>op w. I w \<Longrightarrow> returns (step op w) I"
  shows "I w \<Longrightarrow> returns (run_ops step ops w) I"
proof (induction ops arbitrary: w)
  case Nil
  then show ?case by (simp add: wp)
next
  case (Cons op ops)
  have "returns (step op w) (\<lambda>v. returns (run_ops step ops v) I)"
    using step [OF Cons.prems] by (rule returns_mono) (rule Cons.IH)
  then show ?case by (simp add: wp)
qed

locale lock_discipline =
  fixes step :: "'op \<Rightarrow> world \<Rightarrow> world option"
  assumes step_locks: "returns (step op w) (same_locks w)"
begin

lemma run_locks: "returns (run_ops step ops w) (same_locks w)"
proof (induction ops arbitrary: w)
  case Nil
  show ?case by (simp add: wp)
next
  case (Cons op ops)
  have "returns (step op w) (\<lambda>v. returns (run_ops step ops v) (same_locks w))"
    using step_locks [of op w] by (rule returns_mono) (blast intro: returns_mono [OF Cons.IH] same_locks_trans)
  then show ?case by (simp add: wp)
qed

lemma run_unlocked:
  assumes "\<forall>h. held (calls w) h = 0" and "run_ops step ops w = Some w'"
  shows "held (calls w') h = 0"
  using returns_D [OF run_locks assms(2)] assms(1) by (simp add: same_locks_def)

end

section \<open>Documented behaviour of the outside\<close>

text \<open>
  Named hypotheses. A handle that is not destroyed locks to the pointer it was created for.
  The byte-order macros store a value in network order and read it back. The socket event
  types are six different bits.
\<close>

fun dead :: "history \<Rightarrow> handle \<Rightarrow> bool" where
  "dead [] h = False"
| "dead ((Pkg (HandleDestroy h'), r) # cs) h = (h' = h \<or> dead cs h)"
| "dead (_ # cs) h = dead cs h"

definition locks_to :: "env \<Rightarrow> handle \<Rightarrow> ptr \<Rightarrow> bool" where
  "locks_to E h p \<longleftrightarrow>
     p \<noteq> OFC_NULL \<and>
     (\<forall>hist. \<not> dead hist h \<longrightarrow> r_addr (respond E hist (Pkg (HandleLock h))) = p)"

text \<open>
  The queue package is first-in first-out: a walk over a queue, and emptying it, visits its
  \<open>n\<close> elements in the order they were enqueued.
\<close>

definition queue_fifo :: "env \<Rightarrow> bool" where
  "queue_fifo E \<longleftrightarrow> (\<forall>n. queue_order E n = [0..<n])"

definition net_order_ok :: "env \<Rightarrow> bool" where
  "net_order_ok E \<longleftrightarrow>
     (\<forall>v. length (NET_STON E v) = 2 \<and> NET_NTOS E (NET_STON E v) = v) \<and>
     (\<forall>v. length (NET_LTON E v) = 4 \<and> NET_NTOL E (NET_LTON E v) = v)"

definition event_bits :: "env \<Rightarrow> (32 word) list" where
  "event_bits E = [EVENT_CLOSE E, EVENT_ACCEPT E, EVENT_ADDRESSCHANGE E, EVENT_QOS E,
                   EVENT_READ E, EVENT_WRITE E]"

definition event_bits_ok :: "env \<Rightarrow> bool" where
  "event_bits_ok E \<longleftrightarrow>
     0 \<notin> set (event_bits E) \<and> sorted_wrt (\<lambda>a b. a AND b = 0) (event_bits E)"

text \<open>The allocator never hands out a block that is still allocated.\<close>

definition fresh_alloc :: "env \<Rightarrow> bool" where
  "fresh_alloc E \<longleftrightarrow>
     (\<forall>hist. r_addr (respond E hist (Pkg Malloc)) \<noteq> OFC_NULL \<longrightarrow>
             blocks hist (r_addr (respond E hist (Pkg Malloc))) = 0)"

lemma fresh_allocD:
  "fresh_alloc E \<Longrightarrow> answers E (Pkg Malloc) w r \<Longrightarrow> r_addr r \<noteq> OFC_NULL \<Longrightarrow>
   blocks (calls w) (r_addr r) = 0"
  by (simp add: fresh_alloc_def answers_def)

text \<open>
  Locking a live handle gives its pointer: as a rewrite rule, so that a proof about a sequence
  of operations on one handle never splits its locks.
\<close>

lemma lock_live:
  assumes "locks_to E h p" and "\<not> dead (calls w) h"
  shows "ofc_handle_lock E h w =
    (p, logged (Pkg (HandleLock h)) (respond E (calls w) (Pkg (HandleLock h))) w)"
  using assms by (simp add: call_addr_def call_def locks_to_def Let_def)

lemma locks_to_nonnull: "locks_to E h p \<Longrightarrow> p \<noteq> OFC_NULL"
  by (simp add: locks_to_def)

section \<open>Ownership of the structures\<close>

text \<open>
  Every structure in memory sits in a block that is allocated. The blocks that hold no structure
  of this kind are foreign: an operation that leaves them as they were frees what it allocates
  for its own use, and frees a structure exactly when it takes it out of memory.
\<close>

definition owned :: "(world \<Rightarrow> ptr \<rightharpoonup> 'a) \<Rightarrow> world \<Rightarrow> bool" where
  "owned mem w \<longleftrightarrow> (\<forall>p. mem w p \<noteq> None \<longrightarrow> blocks (calls w) p \<ge> 1)"

definition foreign_blocks :: "(world \<Rightarrow> ptr \<rightharpoonup> 'a) \<Rightarrow> world \<Rightarrow> ptr \<Rightarrow> int" where
  "foreign_blocks mem w p = blocks (calls w) p - (if mem w p = None then 0 else 1)"

definition same_foreign :: "(world \<Rightarrow> ptr \<rightharpoonup> 'a) \<Rightarrow> world \<Rightarrow> world \<Rightarrow> bool" where
  "same_foreign mem w w' \<longleftrightarrow>
     (\<forall>p. p \<noteq> OFC_NULL \<longrightarrow> foreign_blocks mem w' p = foreign_blocks mem w p)"

lemma ownedD: "owned mem w \<Longrightarrow> blocks (calls w) p = 0 \<Longrightarrow> mem w p = None"
  unfolding owned_def by (metis not_one_le_zero)

lemma same_foreignD:
  "same_foreign mem w w' \<Longrightarrow> p \<noteq> OFC_NULL \<Longrightarrow>
   blocks (calls w') p - (if mem w' p = None then 0 else 1) =
   blocks (calls w) p - (if mem w p = None then 0 else 1)"
  by (simp add: same_foreign_def foreign_blocks_def)

locale structure_owner = lock_discipline step
  for step :: "'op \<Rightarrow> world \<Rightarrow> world option" +
  fixes mem :: "world \<Rightarrow> ptr \<rightharpoonup> 'a" and E :: env
  assumes step_owned: "fresh_alloc E \<Longrightarrow> owned mem w \<Longrightarrow> returns (step op w) (owned mem)"
begin

lemma run_owned:
  assumes "fresh_alloc E" and "owned mem w" and "run_ops step ops w = Some w'"
  shows "owned mem w'"
  using run_ops_invariant [of "owned mem" step, OF step_owned [OF assms(1)] assms(2)] assms(3)
  by (rule returns_D)

end

end
