(* ===== verification/OFC_Reference.thy ===== *)
theory OFC_Reference
  imports OFC_Prelude
begin

text \<open>
  A concrete environment, so that the named hypotheses about the outside can be met: the
  byte-order macros of a little-endian machine, six bits for the socket event types, and an
  oracle given as an argument. Nothing of the model depends on it; the witnesses do.
\<close>

definition be16 :: "16 word \<Rightarrow> byte list" where
  "be16 v = [ucast (drop_bit 8 v), ucast v]"

definition be32 :: "32 word \<Rightarrow> byte list" where
  "be32 v = [ucast (drop_bit 24 v), ucast (drop_bit 16 v), ucast (drop_bit 8 v), ucast v]"

fun be_value :: "byte list \<Rightarrow> nat" where
  "be_value bs = foldl (\<lambda>n b. 256 * n + unat b) 0 bs"

definition no_resp :: resp where
  "no_resp = \<lparr>r_ret = 0, r_err = 0, r_addr = 0, r_buf = [], r_pair = (0, 0), r_pair2 = (0, 0),
              r_revents = [], r_items = [], r_ifs = [], r_hosts = [], r_flags = 0,
              r_type = OFC_HANDLE_OTHER 0\<rparr>"

text \<open>The FAT date and time words: seven bits of year since 1980, two-second steps.\<close>

fun dos_pack :: "16 word \<times> 16 word \<times> 16 word \<times> 16 word \<times> 16 word \<times> 16 word \<Rightarrow> 16 word \<times> 16 word" where
  "dos_pack (mon, day, year, hour, mins, sec) =
     ((year - 1980) * 512 + mon * 32 + day, hour * 2048 + mins * 32 + drop_bit 1 sec)"

fun dos_unpack :: "16 word \<times> 16 word \<Rightarrow> 16 word \<times> 16 word \<times> 16 word \<times> 16 word \<times> 16 word \<times> 16 word" where
  "dos_unpack (d, t) =
     (take_bit 4 (drop_bit 5 d), take_bit 5 d, drop_bit 9 d + 1980,
      drop_bit 11 t, take_bit 6 (drop_bit 5 t), push_bit 1 (take_bit 5 t))"

definition ref_env :: "(history \<Rightarrow> xcall \<Rightarrow> resp) \<Rightarrow> env" where
  "ref_env f =
     \<lparr>respond = f,
      NET_STON = be16, NET_LTON = be32,
      NET_NTOS = (\<lambda>bs. of_nat (be_value bs)), NET_NTOL = (\<lambda>bs. of_nat (be_value bs)),
      INADDR_ANY4 = 0, IN6ADDR_ANY = (replicate 16 0, 0),
      EVENT_CLOSE = 1, EVENT_ACCEPT = 2, EVENT_ADDRESSCHANGE = 4, EVENT_QOS = 8,
      EVENT_READ = 16, EVENT_WRITE = 32,
      MAX_SCHED_WAIT = 1000, OFC_FST_ANDROID = 3, queue_order = (\<lambda>n. [0..<n]),
      core_event_test = (\<lambda>h w. Some (False, w)),
      core_event_reset = (\<lambda>h w. Some w),
      core_event_get_type = (\<lambda>h w. Some (OFC_EVENT_AUTO, w)),
      core_event_set = (\<lambda>h w. Some w), core_waitset_wake = (\<lambda>h w. Some w),
      core_process_dump_libs = Some,
      cfg_fs_android = True, cfg_resolver_fs = True, cfg_stack_trace = False,
      OFC_INVALID_HANDLE_VALUE = -1, OFC_INADDR_NONE = -1, OFC_INFINITE = -1,
      ofc_strncmp = (\<lambda>a b n. if take n a = take n b then 0 else 1),
      ofc_strncpy = (\<lambda>d s n. take n (takeWhile (\<lambda>b. b \<noteq> 0) s @ replicate n 0)),
      epoch_time_to_file_time = (\<lambda>s n. s), file_time_to_epoch_time = (\<lambda>f. (f, 0)),
      elements_to_dos_date_time = dos_pack, dos_date_time_to_elements = dos_unpack,
      version_line = bytes ''OpenFiles'', library_line = (\<lambda>name addr. bytes name),
      ofc_substr = (\<lambda>s name. if take (length s) name = bytes s then 0 else -1), OFC_ENV_NUM = 3\<rparr>"

lemma respond_ref [simp]: "respond (ref_env f) = f"
  by (simp add: ref_env_def)

lemma be16_value: "be_value (be16 v) = unat v"
proof -
  have "be_value (be16 v) = 256 * (unat v div 256 mod 256) + unat v mod 256"
    by (simp add: be16_def unsigned_ucast_eq unat_drop_bit_eq)
       (simp add: drop_bit_eq_div take_bit_eq_mod)
  moreover have "unat v div 256 < 256"
  proof -
    have "unat v < 2 ^ 16"
      using unsigned_less [of v] by simp
    then show ?thesis by (simp add: div_less_iff_less_mult)
  qed
  ultimately show ?thesis by simp
qed

lemma be32_value: "be_value (be32 v) = unat v"
proof -
  let ?n = "unat v"
  have "?n div 65536 = ?n div 256 div 256" "?n div 16777216 = ?n div 256 div 256 div 256"
    by (simp_all flip: div_mult2_eq)
  then have "be_value (be32 v) =
      256 * (256 * (256 * (?n div 256 div 256 div 256 mod 256) + ?n div 256 div 256 mod 256)
             + ?n div 256 mod 256) + ?n mod 256"
    by (simp add: be32_def unsigned_ucast_eq unat_drop_bit_eq)
       (simp add: drop_bit_eq_div take_bit_eq_mod)
  moreover have "?n div 256 div 256 div 256 < 256"
    using unsigned_less [of v] by (simp add: div_less_iff_less_mult)
  ultimately show ?thesis by simp
qed

lemma net_order_ref: "net_order_ok (ref_env f)"
  by (simp add: net_order_ok_def ref_env_def be16_value be32_value del: be_value.simps)
     (simp add: be16_def be32_def)

lemma queue_fifo_ref: "queue_fifo (ref_env f)"
  by (simp add: queue_fifo_def ref_env_def)

lemma event_bits_ref: "event_bits_ok (ref_env f)"
  by (simp add: event_bits_ok_def event_bits_def ref_env_def)

text \<open>
  The simplest oracle: every pointer or handle it returns is \<open>a\<close>, every \<open>int\<close> is
  \<open>n\<close>. And a state with nothing in it.
\<close>

definition const_env :: "64 word \<Rightarrow> int \<Rightarrow> env" where
  "const_env a n = ref_env (\<lambda>hist c. no_resp\<lparr>r_addr := a, r_ret := n\<rparr>)"

definition empty_world :: world where
  "empty_world = \<lparr>calls = [], sock_mem = Map.empty, ev_mem = Map.empty,
                  ws_mem = Map.empty, aws_mem = Map.empty, thr_mem = Map.empty,
                  lock_mem = Map.empty, g_fd = 1, log_ix = 0, core_load_addr = 0,
                  smb_load_addr = 0, g_network_handle = 0, overlapped_function = 0\<rparr>"

lemma respond_const [simp]: "respond (const_env a n) hist c = no_resp\<lparr>r_addr := a, r_ret := n\<rparr>"
  by (simp add: const_env_def)

lemma const_env_ok: "net_order_ok (const_env a n)" "event_bits_ok (const_env a n)"
  by (simp_all add: const_env_def net_order_ref event_bits_ref)

lemma locks_const: "a \<noteq> 0 \<Longrightarrow> locks_to (const_env a n) h a"
  by (simp add: locks_to_def no_resp_def)

lemma empty_world_simps [simp]:
  "calls empty_world = []" "sock_mem empty_world = Map.empty" "ev_mem empty_world = Map.empty"
  "ws_mem empty_world = Map.empty" "aws_mem empty_world = Map.empty"
  "thr_mem empty_world = Map.empty" "lock_mem empty_world = Map.empty" "g_fd empty_world = 1"
  "log_ix empty_world = 0" "core_load_addr empty_world = 0" "smb_load_addr empty_world = 0"
  "g_network_handle empty_world = 0" "overlapped_function empty_world = 0"
  by (simp_all add: empty_world_def)

text \<open>
  A heap of one block, at address 64; handle 7 names that block and handle 8 another one, at
  address 96. System calls answer \<open>n\<close> and leave \<open>e\<close> in \<open>errno\<close> and \<open>bs\<close> in the caller's buffer.
\<close>

definition small_env :: "int \<Rightarrow> int \<Rightarrow> byte list \<Rightarrow> env" where
  "small_env n e bs = ref_env (\<lambda>hist c. case c of
     Pkg Malloc \<Rightarrow> no_resp\<lparr>r_addr := (if blocks hist 64 = 0 then 64 else 0)\<rparr>
   | Pkg (HandleCreate ty p) \<Rightarrow> no_resp\<lparr>r_addr := 7\<rparr>
   | Pkg (HandleLock h) \<Rightarrow> no_resp\<lparr>r_addr := (if h = 7 then 64 else if h = 8 then 96 else 0)\<rparr>
   | Pkg _ \<Rightarrow> no_resp
   | _ \<Rightarrow> no_resp\<lparr>r_ret := n, r_err := e, r_buf := bs\<rparr>)"

lemma small_env_ok: "net_order_ok (small_env n e bs)" "event_bits_ok (small_env n e bs)"
  by (simp_all add: small_env_def net_order_ref event_bits_ref)

lemma fresh_small: "fresh_alloc (small_env n e bs)"
  by (simp add: fresh_alloc_def small_env_def no_resp_def)

lemma locks_small: "locks_to (small_env n e bs) 7 64" "locks_to (small_env n e bs) 8 96"
  by (simp_all add: locks_to_def small_env_def no_resp_def)

lemma respond_small [simp]:
  "respond (small_env n e bs) hist (Pkg Malloc) = no_resp\<lparr>r_addr := (if blocks hist 64 = 0 then 64 else 0)\<rparr>"
  "respond (small_env n e bs) hist (Pkg (HandleCreate ty p)) = no_resp\<lparr>r_addr := 7\<rparr>"
  "respond (small_env n e bs) hist (Pkg (Free p)) = no_resp"
  "respond (small_env n e bs) hist (Pkg (HandleLock h)) =
     no_resp\<lparr>r_addr := (if h = 7 then 64 else if h = 8 then 96 else 0)\<rparr>"
  "respond (small_env n e bs) hist (Pkg (HandleUnlock h)) = no_resp"
  "respond (small_env n e bs) hist (Pkg (HandleDestroy h)) = no_resp"
  "respond (small_env n e bs) hist (Sys s) = no_resp\<lparr>r_ret := n, r_err := e, r_buf := bs\<rparr>"
  by (simp_all add: small_env_def)

text \<open>
  The same machine as seen by a socket with a peer: a second block at address 96, behind handle
  8; the kernel answers \<open>n\<close>, with \<open>bs\<close> in the caller's buffer, and \<open>bs'\<close> for the peer's name.
\<close>

definition peer_env :: "int \<Rightarrow> byte list \<Rightarrow> byte list \<Rightarrow> env" where
  "peer_env n bs bs' = ref_env (\<lambda>hist c. case c of
     Pkg Malloc \<Rightarrow> no_resp\<lparr>r_addr := 96\<rparr>
   | Pkg (HandleCreate ty p) \<Rightarrow> no_resp\<lparr>r_addr := 8\<rparr>
   | Pkg (HandleLock h) \<Rightarrow> no_resp\<lparr>r_addr := (if h = 7 then 64 else if h = 8 then 96 else 0)\<rparr>
   | Sys (SysGetpeername d k) \<Rightarrow> no_resp\<lparr>r_ret := n, r_buf := bs'\<rparr>
   | Sys s \<Rightarrow> no_resp\<lparr>r_ret := n, r_buf := bs\<rparr>
   | _ \<Rightarrow> no_resp)"

lemma peer_env_ok: "net_order_ok (peer_env n bs bs')" "event_bits_ok (peer_env n bs bs')"
  by (simp_all add: peer_env_def net_order_ref event_bits_ref)

lemma locks_peer: "locks_to (peer_env n bs bs') 7 64" "locks_to (peer_env n bs bs') 8 96"
  by (simp_all add: locks_to_def peer_env_def no_resp_def)

lemma respond_peer [simp]:
  "respond (peer_env n bs bs') hist (Pkg Malloc) = no_resp\<lparr>r_addr := 96\<rparr>"
  "respond (peer_env n bs bs') hist (Pkg (HandleCreate ty p)) = no_resp\<lparr>r_addr := 8\<rparr>"
  "respond (peer_env n bs bs') hist (Sys (SysAccept d k)) = no_resp\<lparr>r_ret := n, r_buf := bs\<rparr>"
  "respond (peer_env n bs bs') hist (Sys (SysGetsockname d k)) = no_resp\<lparr>r_ret := n, r_buf := bs\<rparr>"
  "respond (peer_env n bs bs') hist (Sys (SysGetpeername d k)) = no_resp\<lparr>r_ret := n, r_buf := bs'\<rparr>"
  by (simp_all add: peer_env_def)

end
