(* ===== verification/OFC_Socket.thy ===== *)
theory OFC_Socket
  imports OFC_Reference
begin

text \<open>
  The network sockets of src/src/socket\_android.c: the conversion between OpenFiles' addresses
  and the kernel's \<open>struct sockaddr\<close> as bytes, and every operation on a socket handle. Each
  operation locks the handle, does its system calls on the descriptor of the structure behind
  it, and unlocks. The lemmas show the address round trips, what each return value means on
  every branch, that every operation unlocks what it locks, and that it touches no structure
  but its own.
\<close>

section \<open>Addresses\<close>

text \<open>\<open>struct sockaddr\<close> has 16 bytes, \<open>sockaddr_in\<close> 16 and \<open>sockaddr_in6\<close> 28.\<close>

abbreviation (input) sizeof_sockaddr :: nat where "sizeof_sockaddr \<equiv> 16"
abbreviation (input) sizeof_sockaddr_in :: nat where "sizeof_sockaddr_in \<equiv> 16"
abbreviation (input) sizeof_sockaddr_in6 :: nat where "sizeof_sockaddr_in6 \<equiv> 28"

definition sockaddr_in :: "env \<Rightarrow> ipaddr \<Rightarrow> 16 word \<Rightarrow> byte list" where
  "sockaddr_in E ip port =
     (let m = replicate sizeof_sockaddr_in 0;
          m = poke 0 (le16 (word_of_int AF_INET)) m;
          m = poke 2 (NET_STON E port) m
      in poke 4 (NET_LTON E (ipv4_addr ip)) m)"

definition sockaddr_in6 :: "env \<Rightarrow> ipaddr \<Rightarrow> 16 word \<Rightarrow> byte list" where
  "sockaddr_in6 E ip port =
     (let m = replicate sizeof_sockaddr_in6 0;
          m = poke 0 (le16 (word_of_int AF_INET6)) m;
          m = poke 24 (le32 (ipv6_scope ip)) m;
          m = poke 2 (NET_STON E port) m
      in poke 8 (map (\<lambda>i. s6_addr ip ! i) [0..<16]) m)"

text \<open>
  The result is the address of the allocated block and its bytes. A failed allocation is not
  checked by the source: the following \<open>ofc_memset\<close> writes through the null pointer.
\<close>

definition make_sockaddr :: "env \<Rightarrow> ipaddr \<Rightarrow> 16 word \<Rightarrow> world \<Rightarrow> (ptr \<times> byte list) result" where
  "make_sockaddr E ip port w =
     (let (p, w) = call_addr E (Pkg Malloc) w in
      if p = OFC_NULL then None
      else if ip_version ip = OFC_FAMILY_IP then Some ((p, sockaddr_in E ip port), w)
      else Some ((p, sockaddr_in6 E ip port), w))"

text \<open>
  \<open>None\<close> for \<open>ip\<close> or \<open>port\<close> is a null pointer; only the IPv6 branch checks for it.
\<close>

definition unmake_sockaddr ::
  "env \<Rightarrow> byte list \<Rightarrow> ipaddr option \<Rightarrow> 16 word option \<Rightarrow> (ipaddr option \<times> 16 word option) option" where
  "unmake_sockaddr E sa ip port = do {
     fam \<leftarrow> peek 0 2 sa;
     if le16_value fam = AF_INET then do {
       a \<leftarrow> ip;
       q \<leftarrow> port;
       pb \<leftarrow> peek 2 2 sa;
       ab \<leftarrow> peek 4 4 sa;
       Some (Some (a\<lparr>ip_version := OFC_FAMILY_IP, ipv4_addr := NET_NTOL E ab\<rparr>),
             Some (NET_NTOS E pb))
     } else do {
       ip' \<leftarrow> (case ip of None \<Rightarrow> Some None
              | Some a \<Rightarrow> do {
                  bs \<leftarrow> peek 8 16 sa;
                  Some (Some (a\<lparr>ip_version := OFC_FAMILY_IPV6, s6_addr := bs\<rparr>)) });
       port' \<leftarrow> (case port of None \<Rightarrow> Some None
              | Some q \<Rightarrow> do { pb \<leftarrow> peek 2 2 sa; Some (Some (NET_NTOS E pb)) });
       Some (ip', port')
     }
   }"

section \<open>Creating and destroying\<close>

definition ofc_socket_impl_create :: "env \<Rightarrow> ofc_family \<Rightarrow> sock_type \<Rightarrow> world \<Rightarrow> handle result" where
  "ofc_socket_impl_create E family socktype w =
     (let (p, w) = call_addr E (Pkg Malloc) w in
      if p \<noteq> OFC_NULL then
        let v4 = (family = OFC_FAMILY_IP);
            ip = (if v4
                  then \<lparr>ip_version = OFC_FAMILY_IP, ipv4_addr = INADDR_ANY4 E,
                        s6_addr = [], ipv6_scope = 0\<rparr>
                  else \<lparr>ip_version = OFC_FAMILY_IPV6, ipv4_addr = 0,
                        s6_addr = fst (IN6ADDR_ANY E), ipv6_scope = snd (IN6ADDR_ANY E)\<rparr>);
            fam = (if v4 then AF_INET else AF_INET6);
            (stype, proto) =
              (if socktype = SOCKET_TYPE_STREAM then (SOCK_STREAM, IPPROTO_TCP)
               else if socktype = SOCKET_TYPE_ICMP
               then (SOCK_RAW, if ip_version ip = OFC_FAMILY_IP then IPPROTO_ICMP else IPPROTO_ICMPV6)
               else (SOCK_DGRAM, IPPROTO_UDP));
            (s, w) = call_ret E (Sys (SysSocket fam stype proto)) w
        in if s < 0 then
             let w = call_void E (Pkg (Free p)) w
             in Some (OFC_HANDLE_NULL, w)
           else
             let sock = \<lparr>s_socket = s, s_family = Some family, s_events = Some 0,
                         s_revents = Some 0, s_ip = Some ip, s_remote_closed = False\<rparr>;
                 w = w\<lparr>sock_mem := (sock_mem w)(p \<mapsto> sock)\<rparr>;
                 w = (if socktype = SOCKET_TYPE_DGRAM
                      then call_void E (Sys (SysSetsockopt s SO_BROADCAST 1)) w else w)
             in Some (call_addr E (Pkg (HandleCreate OFC_HANDLE_SOCKET_IMPL p)) w)
      else Some (OFC_HANDLE_NULL, w))"

definition ofc_socket_impl_destroy :: "env \<Rightarrow> handle \<Rightarrow> world \<Rightarrow> world option" where
  "ofc_socket_impl_destroy E hSocket w =
     (let (p, w) = ofc_handle_lock E hSocket w in
      if p \<noteq> OFC_NULL then
        let w = call_void E (Pkg (Free p)) w;
            w = w\<lparr>sock_mem := (sock_mem w)(p := None)\<rparr>;
            w = call_void E (Pkg (HandleDestroy hSocket)) w
        in Some (ofc_handle_unlock E hSocket w)
      else Some w)"

section \<open>Connection set-up\<close>

definition ofc_socket_impl_bind :: "env \<Rightarrow> handle \<Rightarrow> ipaddr \<Rightarrow> 16 word \<Rightarrow> world \<Rightarrow> bool result" where
  "ofc_socket_impl_bind E hSocket ip port w =
     (let (p, w) = ofc_handle_lock E hSocket w in
      if p \<noteq> OFC_NULL then do {
        ((sa, bs), w) \<leftarrow> make_sockaddr E ip port w;
        sock \<leftarrow> sock_mem w p;
        let (status, w) = call_ret E (Sys (SysBind (s_socket sock) bs)) w;
        let w = call_void E (Pkg (Free sa)) w;
        let w = ofc_handle_unlock E hSocket w;
        Some (status = 0, w)
      } else Some (False, w))"

definition ofc_socket_impl_close :: "env \<Rightarrow> handle \<Rightarrow> world \<Rightarrow> bool result" where
  "ofc_socket_impl_close E hSocket w =
     (let (p, w) = ofc_handle_lock E hSocket w in
      if p \<noteq> OFC_NULL then do {
        sock \<leftarrow> sock_mem w p;
        let w = call_void E (Sys (SysClose (s_socket sock))) w;
        let w = ofc_handle_unlock E hSocket w;
        Some (True, w)
      } else Some (False, w))"

definition ofc_socket_impl_connect :: "env \<Rightarrow> handle \<Rightarrow> ipaddr \<Rightarrow> 16 word \<Rightarrow> world \<Rightarrow> bool result" where
  "ofc_socket_impl_connect E hSocket ip port w =
     (let (p, w) = ofc_handle_lock E hSocket w in
      if p \<noteq> OFC_NULL then do {
        ((sa, bs), w) \<leftarrow> make_sockaddr E ip port w;
        sock \<leftarrow> sock_mem w p;
        let (r, w) = call E (Sys (SysConnect (s_socket sock) bs)) w;
        let ok = ((r_ret r \<noteq> 0 \<and> r_err r = EINPROGRESS) \<or> r_ret r = 0);
        let w = call_void E (Pkg (Free sa)) w;
        let w = ofc_handle_unlock E hSocket w;
        Some (ok, w)
      } else Some (False, w))"

definition ofc_socket_impl_listen :: "env \<Rightarrow> handle \<Rightarrow> int \<Rightarrow> world \<Rightarrow> bool result" where
  "ofc_socket_impl_listen E hSocket backlog w =
     (let (p, w) = ofc_handle_lock E hSocket w in
      if p \<noteq> OFC_NULL then do {
        sock \<leftarrow> sock_mem w p;
        let (status, w) = call_ret E (Sys (SysListen (s_socket sock) backlog)) w;
        let w = ofc_handle_unlock E hSocket w;
        Some (status \<noteq> -1, w)
      } else Some (False, w))"

text \<open>
  The structure for the new connection is written through an unchecked pointer, and only its
  descriptor and \<open>remote_closed\<close> are set. The kernel stores at most
  \<open>sizeof (struct sockaddr)\<close> bytes of the peer's address.
\<close>

definition ofc_socket_impl_accept ::
  "env \<Rightarrow> handle \<Rightarrow> ipaddr option \<Rightarrow> 16 word option \<Rightarrow> world \<Rightarrow>
   (handle \<times> ipaddr option \<times> 16 word option) result" where
  "ofc_socket_impl_accept E hSocket ip port w =
     (let (p, w) = ofc_handle_lock E hSocket w in
      if p \<noteq> OFC_NULL then
        let (q, w) = call_addr E (Pkg Malloc) w in
        if q = OFC_NULL then None
        else do {
          sock \<leftarrow> sock_mem w p;
          let (r, w) = call E (Sys (SysAccept (s_socket sock) sizeof_sockaddr)) w;
          if r_ret r \<noteq> -1 then do {
            let newsock = \<lparr>s_socket = r_ret r, s_family = None, s_events = None,
                           s_revents = None, s_ip = None, s_remote_closed = False\<rparr>;
            let w = w\<lparr>sock_mem := (sock_mem w)(q \<mapsto> newsock)\<rparr>;
            (ip', port') \<leftarrow> unmake_sockaddr E (take sizeof_sockaddr (r_buf r)) ip port;
            let (h, w) = call_addr E (Pkg (HandleCreate OFC_HANDLE_SOCKET_IMPL q)) w;
            let w = ofc_handle_unlock E hSocket w;
            Some ((h, ip', port'), w)
          } else do {
            let w = call_void E (Pkg (Free q)) w;
            let w = ofc_handle_unlock E hSocket w;
            Some ((OFC_HANDLE_NULL, ip, port), w)
          }
        }
      else Some ((OFC_HANDLE_NULL, ip, port), w))"

definition ofc_socket_impl_reuse_addr :: "env \<Rightarrow> handle \<Rightarrow> bool \<Rightarrow> world \<Rightarrow> bool result" where
  "ofc_socket_impl_reuse_addr E hSocket onoff w =
     (let (p, w) = ofc_handle_lock E hSocket w in
      if p \<noteq> OFC_NULL then do {
        sock \<leftarrow> sock_mem w p;
        let (status, w) =
          call_ret E (Sys (SysSetsockopt (s_socket sock) SO_REUSEADDR (of_bool onoff))) w;
        let w = ofc_handle_unlock E hSocket w;
        Some (status \<noteq> -1, w)
      } else Some (False, w))"

definition ofc_socket_impl_connected :: "env \<Rightarrow> handle \<Rightarrow> world \<Rightarrow> bool result" where
  "ofc_socket_impl_connected E hSocket w =
     (let (p, w) = ofc_handle_lock E hSocket w in
      if p \<noteq> OFC_NULL then do {
        sock \<leftarrow> sock_mem w p;
        let (ret, w) =
          (if \<not> s_remote_closed sock
           then let (status, w) = call_ret E (Sys (SysGetpeername (s_socket sock) sizeof_sockaddr)) w
                in (status \<noteq> -1, w)
           else (False, w));
        let w = ofc_handle_unlock E hSocket w;
        Some (ret, w)
      } else Some (False, w))"

text \<open>The parameter \<open>onoff\<close> is not read.\<close>

definition ofc_socket_impl_no_block :: "env \<Rightarrow> handle \<Rightarrow> bool \<Rightarrow> world \<Rightarrow> bool result" where
  "ofc_socket_impl_no_block E hSocket onoff w =
     (let (p, w) = ofc_handle_lock E hSocket w in
      if p \<noteq> OFC_NULL then do {
        sock \<leftarrow> sock_mem w p;
        let (flags, w) = call_ret E (Sys (SysGetFl (s_socket sock))) w;
        let (ret, w) =
          (if flags \<ge> 0
           then (True, call_void E (Sys (SysSetFl (s_socket sock) (word_of_int flags OR O_NONBLOCK))) w)
           else (False, w));
        let w = ofc_handle_unlock E hSocket w;
        Some (ret, w)
      } else Some (False, w))"

section \<open>Sending and receiving\<close>

definition ofc_socket_impl_send :: "env \<Rightarrow> handle \<Rightarrow> byte list \<Rightarrow> 64 word \<Rightarrow> world \<Rightarrow> (64 word) result" where
  "ofc_socket_impl_send E hSocket bs len w =
     (let (p, w) = ofc_handle_lock E hSocket w in
      if p \<noteq> OFC_NULL then do {
        sock \<leftarrow> sock_mem w p;
        let (r, w) = call E (Sys (SysSend (s_socket sock) bs (int_of_size len))) w;
        let ret = (if r_ret r = -1 \<and> r_err r = EAGAIN then 0
                   else if r_ret r \<ge> 0 then size_of_int (r_ret r)
                   else -1);
        let w = ofc_handle_unlock E hSocket w;
        Some (ret, w)
      } else Some (-1, w))"

text \<open>\<open>errno\<close> is read after \<open>ofc_free\<close>: it is what that call left in it.\<close>

definition ofc_socket_impl_sendto ::
  "env \<Rightarrow> handle \<Rightarrow> byte list \<Rightarrow> 64 word \<Rightarrow> ipaddr \<Rightarrow> 16 word \<Rightarrow> world \<Rightarrow> (64 word) result" where
  "ofc_socket_impl_sendto E hSocket bs len ip port w =
     (let (p, w) = ofc_handle_lock E hSocket w in
      if p \<noteq> OFC_NULL then do {
        ((sa, ab), w) \<leftarrow> make_sockaddr E ip port w;
        sock \<leftarrow> sock_mem w p;
        let (status, w) = call_ret E (Sys (SysSendto (s_socket sock) bs (int_of_size len) ab)) w;
        let (f, w) = call E (Pkg (Free sa)) w;
        let ret = (if status = -1 \<and> r_err f = EAGAIN then 0
                   else if status \<ge> 0 then size_of_int status
                   else -1);
        let w = ofc_handle_unlock E hSocket w;
        Some (ret, w)
      } else Some (-1, w))"

definition ofc_socket_impl_recv :: "env \<Rightarrow> handle \<Rightarrow> 64 word \<Rightarrow> world \<Rightarrow> (64 word) result" where
  "ofc_socket_impl_recv E hSocket len w =
     (let (p, w) = ofc_handle_lock E hSocket w in
      if p \<noteq> OFC_NULL then do {
        sock \<leftarrow> sock_mem w p;
        let (r, w) = call E (Sys (SysRecv (s_socket sock) (int_of_size len))) w;
        let (ret, w) =
          (if r_ret r = -1 \<and> r_err r = EAGAIN then (0, w)
           else if r_ret r > 0 then (size_of_int (r_ret r), w)
           else (0, w\<lparr>sock_mem := (sock_mem w)(p \<mapsto> sock\<lparr>s_remote_closed := True\<rparr>)\<rparr>));
        let w = ofc_handle_unlock E hSocket w;
        Some (ret, w)
      } else Some (-1, w))"

text \<open>
  \<open>mysize\<close> is read before it is written: the environment chooses its value. A value above
  the size of the buffer lets \<open>ofc_memset\<close> write outside it.
\<close>

definition ofc_socket_impl_recv_from ::
  "env \<Rightarrow> handle \<Rightarrow> 64 word \<Rightarrow> ipaddr option \<Rightarrow> 16 word option \<Rightarrow> world \<Rightarrow>
   (64 word \<times> ipaddr option \<times> 16 word option) result" where
  "ofc_socket_impl_recv_from E hSocket len ip port w =
     (let (p, w) = ofc_handle_lock E hSocket w in
      if p \<noteq> OFC_NULL then
        let (garbage, w) = call_ret E (Sys Indeterminate) w;
            mysize = unat (word_of_int garbage :: 32 word) in
        if mysize > sizeof_sockaddr then None
        else do {
          sock \<leftarrow> sock_mem w p;
          let (r, w) = call E (Sys (SysRecvfrom (s_socket sock) (int_of_size len) mysize)) w;
          if r_ret r = -1 \<and> r_err r = EAGAIN then
            Some ((0, ip, port), ofc_handle_unlock E hSocket w)
          else if r_ret r \<ge> 0 then do {
            (ip', port') \<leftarrow>
              unmake_sockaddr E (poke 0 (take mysize (r_buf r)) (replicate mysize 0)) ip port;
            Some ((size_of_int (r_ret r), ip', port'), ofc_handle_unlock E hSocket w)
          } else Some ((-1, ip, port), ofc_handle_unlock E hSocket w)
        }
      else Some ((-1, ip, port), w))"

section \<open>Poll events\<close>

definition ofc_socket_impl_set_event :: "env \<Rightarrow> handle \<Rightarrow> 16 word \<Rightarrow> world \<Rightarrow> world option" where
  "ofc_socket_impl_set_event E hSocket revents w =
     (let (p, w) = ofc_handle_lock E hSocket w in
      if p \<noteq> OFC_NULL then do {
        sock \<leftarrow> sock_mem w p;
        let w = w\<lparr>sock_mem := (sock_mem w)(p \<mapsto> sock\<lparr>s_revents := Some revents\<rparr>)\<rparr>;
        Some (ofc_handle_unlock E hSocket w)
      } else Some w)"

definition ofc_socket_impl_get_event :: "env \<Rightarrow> handle \<Rightarrow> world \<Rightarrow> (16 word) result" where
  "ofc_socket_impl_get_event E hSocket w =
     (let (p, w) = ofc_handle_lock E hSocket w in
      if p \<noteq> OFC_NULL then do {
        sock \<leftarrow> sock_mem w p;
        ret \<leftarrow> s_events sock;
        let w = ofc_handle_unlock E hSocket w;
        Some (ret, w)
      } else Some (0, w))"

definition ofc_socket_impl_get_fd :: "env \<Rightarrow> handle \<Rightarrow> world \<Rightarrow> int result" where
  "ofc_socket_impl_get_fd E hSocket w =
     (let (p, w) = ofc_handle_lock E hSocket w in
      if p \<noteq> OFC_NULL then do {
        sock \<leftarrow> sock_mem w p;
        let w = ofc_handle_unlock E hSocket w;
        Some (s_socket sock, w)
      } else Some (-1, w))"

text \<open>The event mask \<open>ofc_socket_impl_test\<close> computes from the closed flag and \<open>revents\<close>.\<close>

definition test_mask :: "env \<Rightarrow> bool \<Rightarrow> 16 word \<Rightarrow> 32 word" where
  "test_mask E closed re =
     (let t = 0;
          t = (if closed then t OR EVENT_CLOSE E else t);
          t = (if re AND POLLHUP \<noteq> 0 then t OR EVENT_CLOSE E else t);
          t = (if re AND POLLIN \<noteq> 0 then t OR (EVENT_ACCEPT E OR EVENT_READ E) else t);
          t = (if re AND POLLERR \<noteq> 0 then t OR EVENT_ADDRESSCHANGE E else t);
          t = (if re AND POLLPRI \<noteq> 0 then t OR EVENT_QOS E else t)
      in if re AND POLLOUT \<noteq> 0 then t OR EVENT_WRITE E else t)"

definition ofc_socket_impl_test :: "env \<Rightarrow> handle \<Rightarrow> world \<Rightarrow> (32 word) result" where
  "ofc_socket_impl_test E hSocket w =
     (let (p, w) = ofc_handle_lock E hSocket w in
      if p \<noteq> OFC_NULL then do {
        sock \<leftarrow> sock_mem w p;
        re \<leftarrow> s_revents sock;
        let t = test_mask E (s_remote_closed sock) re;
        let w = ofc_handle_unlock E hSocket w;
        Some (t, w)
      } else Some (0, w))"

text \<open>The poll mask \<open>ofc_socket_impl_enable\<close> computes from the wanted event types.\<close>

definition enable_mask :: "env \<Rightarrow> 32 word \<Rightarrow> 16 word" where
  "enable_mask E type =
     (let t = 0;
          t = (if type AND EVENT_CLOSE E \<noteq> 0 then t OR POLLHUP else t);
          t = (if type AND EVENT_ACCEPT E \<noteq> 0 then t OR POLLIN else t);
          t = (if type AND EVENT_ADDRESSCHANGE E \<noteq> 0 then t OR POLLERR else t);
          t = (if type AND EVENT_QOS E \<noteq> 0 then t OR POLLPRI else t);
          t = (if type AND EVENT_READ E \<noteq> 0 then t OR POLLIN else t)
      in if type AND EVENT_WRITE E \<noteq> 0 then t OR POLLOUT else t)"

definition ofc_socket_impl_enable :: "env \<Rightarrow> handle \<Rightarrow> 32 word \<Rightarrow> world \<Rightarrow> bool result" where
  "ofc_socket_impl_enable E hSocket type w =
     (let (p, w) = ofc_handle_lock E hSocket w in
      if p \<noteq> OFC_NULL then do {
        sock \<leftarrow> sock_mem w p;
        let w = w\<lparr>sock_mem := (sock_mem w)(p \<mapsto> sock\<lparr>s_events := Some (enable_mask E type)\<rparr>)\<rparr>;
        let w = ofc_handle_unlock E hSocket w;
        Some (True, w)
      } else Some (False, w))"

section \<open>Options and names\<close>

definition ofc_socket_impl_set_send_size :: "env \<Rightarrow> handle \<Rightarrow> int \<Rightarrow> world \<Rightarrow> world option" where
  "ofc_socket_impl_set_send_size E hSocket sz w =
     (let (p, w) = ofc_handle_lock E hSocket w in
      if p \<noteq> OFC_NULL then do {
        sock \<leftarrow> sock_mem w p;
        let w = call_void E (Sys (SysSetsockopt (s_socket sock) SO_SNDBUF sz)) w;
        Some (ofc_handle_unlock E hSocket w)
      } else Some w)"

definition ofc_socket_impl_set_recv_size :: "env \<Rightarrow> handle \<Rightarrow> int \<Rightarrow> world \<Rightarrow> world option" where
  "ofc_socket_impl_set_recv_size E hSocket sz w =
     (let (p, w) = ofc_handle_lock E hSocket w in
      if p \<noteq> OFC_NULL then do {
        sock \<leftarrow> sock_mem w p;
        let w = call_void E (Sys (SysSetsockopt (s_socket sock) SO_RCVBUF sz)) w;
        Some (ofc_handle_unlock E hSocket w)
      } else Some w)"

text \<open>\<open>OFC_SOCKADDR\<close>, and what \<open>getsockname\<close> or \<open>getpeername\<close> is read back into.\<close>

record ofc_sockaddr =
  sin_family :: ofc_family
  sin_addr :: ipaddr
  sin_port :: "16 word"

definition read_name :: "env \<Rightarrow> ptr \<Rightarrow> byte list \<Rightarrow> ofc_sockaddr \<Rightarrow> ofc_sockaddr option" where
  "read_name E p sa out = do {
     fam \<leftarrow> (if p = OFC_NULL then None else peek 0 2 sa);
     (ip, port) \<leftarrow> unmake_sockaddr E sa (Some (sin_addr out)) (Some (sin_port out));
     ip \<leftarrow> ip;
     port \<leftarrow> port;
     Some \<lparr>sin_family = (if le16_value fam = AF_INET then OFC_FAMILY_IP else OFC_FAMILY_IPV6),
           sin_addr = ip, sin_port = port\<rparr>
   }"

definition ofc_socket_impl_get_addresses ::
  "env \<Rightarrow> handle \<Rightarrow> ofc_sockaddr \<Rightarrow> ofc_sockaddr \<Rightarrow> world \<Rightarrow>
   (bool \<times> ofc_sockaddr \<times> ofc_sockaddr) result" where
  "ofc_socket_impl_get_addresses E hSock local remote w =
     (let (p, w) = ofc_handle_lock E hSock w in
      if p \<noteq> OFC_NULL then do {
        let sz = max sizeof_sockaddr_in6 sizeof_sockaddr_in;
        let (lp, w) = call_addr E (Pkg Malloc) w;
        sock \<leftarrow> sock_mem w p;
        let (r, w) = call E (Sys (SysGetsockname (s_socket sock) sz)) w;
        (res, w) \<leftarrow>
          (if r_ret r = 0 then do {
             local \<leftarrow> read_name E lp (take sz (r_buf r)) local;
             let (rp, w) = call_addr E (Pkg Malloc) w;
             let (r, w) = call E (Sys (SysGetpeername (s_socket sock) sz)) w;
             (ok, remote) \<leftarrow>
               (if r_ret r = 0 then do {
                  remote \<leftarrow> read_name E rp (take sz (r_buf r)) remote;
                  Some (True, remote)
                } else Some (False, remote));
             let w = call_void E (Pkg (Free rp)) w;
             Some ((ok, local, remote), w)
           } else Some ((False, local, remote), w));
        let w = call_void E (Pkg (Free lp)) w;
        let w = ofc_handle_unlock E hSock w;
        Some (res, w)
      } else Some ((False, local, remote), w))"

section \<open>All operations, and what they lock and allocate\<close>

datatype socket_op =
    Create ofc_family sock_type
  | Destroy handle
  | Bind handle ipaddr "16 word"
  | Close handle
  | Connect handle ipaddr "16 word"
  | Listen handle int
  | Accept handle "ipaddr option" "16 word option"
  | Reuse_addr handle bool
  | Connected handle
  | No_block handle bool
  | Send handle "byte list" "64 word"
  | Sendto handle "byte list" "64 word" ipaddr "16 word"
  | Recv handle "64 word"
  | Recv_from handle "64 word" "ipaddr option" "16 word option"
  | Set_event handle "16 word"
  | Get_event handle
  | Get_fd handle
  | Test handle
  | Enable handle "32 word"
  | Set_send_size handle int
  | Set_recv_size handle int
  | Get_addresses handle ofc_sockaddr ofc_sockaddr

fun socket_step :: "env \<Rightarrow> socket_op \<Rightarrow> world \<Rightarrow> world option" where
  "socket_step E (Create f ty) w = map_option snd (ofc_socket_impl_create E f ty w)"
| "socket_step E (Destroy h) w = ofc_socket_impl_destroy E h w"
| "socket_step E (Bind h ip port) w = map_option snd (ofc_socket_impl_bind E h ip port w)"
| "socket_step E (Close h) w = map_option snd (ofc_socket_impl_close E h w)"
| "socket_step E (Connect h ip port) w = map_option snd (ofc_socket_impl_connect E h ip port w)"
| "socket_step E (Listen h n) w = map_option snd (ofc_socket_impl_listen E h n w)"
| "socket_step E (Accept h ip port) w = map_option snd (ofc_socket_impl_accept E h ip port w)"
| "socket_step E (Reuse_addr h b) w = map_option snd (ofc_socket_impl_reuse_addr E h b w)"
| "socket_step E (Connected h) w = map_option snd (ofc_socket_impl_connected E h w)"
| "socket_step E (No_block h b) w = map_option snd (ofc_socket_impl_no_block E h b w)"
| "socket_step E (Send h bs n) w = map_option snd (ofc_socket_impl_send E h bs n w)"
| "socket_step E (Sendto h bs n ip port) w =
     map_option snd (ofc_socket_impl_sendto E h bs n ip port w)"
| "socket_step E (Recv h n) w = map_option snd (ofc_socket_impl_recv E h n w)"
| "socket_step E (Recv_from h n ip port) w =
     map_option snd (ofc_socket_impl_recv_from E h n ip port w)"
| "socket_step E (Set_event h re) w = ofc_socket_impl_set_event E h re w"
| "socket_step E (Get_event h) w = map_option snd (ofc_socket_impl_get_event E h w)"
| "socket_step E (Get_fd h) w = map_option snd (ofc_socket_impl_get_fd E h w)"
| "socket_step E (Test h) w = map_option snd (ofc_socket_impl_test E h w)"
| "socket_step E (Enable h t) w = map_option snd (ofc_socket_impl_enable E h t w)"
| "socket_step E (Set_send_size h n) w = ofc_socket_impl_set_send_size E h n w"
| "socket_step E (Set_recv_size h n) w = ofc_socket_impl_set_recv_size E h n w"
| "socket_step E (Get_addresses h l r) w = map_option snd (ofc_socket_impl_get_addresses E h l r w)"

lemmas socket_defs =
  ofc_socket_impl_create_def ofc_socket_impl_destroy_def ofc_socket_impl_bind_def
  ofc_socket_impl_close_def ofc_socket_impl_connect_def ofc_socket_impl_listen_def
  ofc_socket_impl_accept_def ofc_socket_impl_reuse_addr_def ofc_socket_impl_connected_def
  ofc_socket_impl_no_block_def ofc_socket_impl_send_def ofc_socket_impl_sendto_def
  ofc_socket_impl_recv_def ofc_socket_impl_recv_from_def ofc_socket_impl_set_event_def
  ofc_socket_impl_get_event_def ofc_socket_impl_get_fd_def ofc_socket_impl_test_def
  ofc_socket_impl_enable_def ofc_socket_impl_set_send_size_def
  ofc_socket_impl_set_recv_size_def ofc_socket_impl_get_addresses_def

lemma returns_unmake [wp]:
  "returns (unmake_sockaddr E sa ip port) Q \<longleftrightarrow>
     (\<forall>x. unmake_sockaddr E sa ip port = Some x \<longrightarrow> Q x)"
  by (simp add: returns_def)

lemma returns_name [wp]:
  "returns (read_name E p sa out) Q \<longleftrightarrow> (\<forall>x. read_name E p sa out = Some x \<longrightarrow> Q x)"
  by (simp add: returns_def)

lemma socket_step_locks: "returns (socket_step E op w) (same_locks w)"
  by (cases op) (auto simp: socket_defs make_sockaddr_def same_locks_def Let_def wp split: call_splits)

section \<open>Address round trips\<close>

lemma le16_inet [simp]: "le16_value (le16 2) = AF_INET" "le16_value (le16 10) = AF_INET6"
  by (simp_all add: le16_value_def le16_def)

lemma length_le [simp]: "length (le16 v) = 2" "length (le32 u) = 4"
  by (simp_all add: le16_def le32_def)

lemma sockaddr_in_fields:
  assumes "net_order_ok E"
  shows "length (sockaddr_in E ip port) = sizeof_sockaddr_in"
    and "peek 0 2 (sockaddr_in E ip port) = Some (le16 (word_of_int AF_INET))"
    and "peek 2 2 (sockaddr_in E ip port) = Some (NET_STON E port)"
    and "peek 4 4 (sockaddr_in E ip port) = Some (NET_LTON E (ipv4_addr ip))"
    and "peek 8 8 (sockaddr_in E ip port) = Some (replicate 8 0)"
  using assms
  by (simp_all add: sockaddr_in_def Let_def net_order_ok_def peek_poke peek_replicate)

lemma sockaddr_in6_fields:
  assumes "net_order_ok E"
  shows "length (sockaddr_in6 E ip port) = sizeof_sockaddr_in6"
    and "peek 0 2 (sockaddr_in6 E ip port) = Some (le16 (word_of_int AF_INET6))"
    and "peek 2 2 (sockaddr_in6 E ip port) = Some (NET_STON E port)"
    and "peek 8 16 (sockaddr_in6 E ip port) = Some (map (\<lambda>i. s6_addr ip ! i) [0..<16])"
    and "peek 24 4 (sockaddr_in6 E ip port) = Some (le32 (ipv6_scope ip))"
  using assms
  by (simp_all add: sockaddr_in6_def Let_def net_order_ok_def peek_poke peek_replicate)

lemma map_nth_16: "length xs = 16 \<Longrightarrow> map (\<lambda>i. xs ! i) [0..<16] = xs"
  using map_nth [of xs] by simp

text \<open>
  C29. An IPv4 address and port written into a socket address are read back unchanged.
\<close>

theorem sockaddr_v4_roundtrip:
  assumes "net_order_ok E"
  shows "unmake_sockaddr E (sockaddr_in E ip port) (Some dst) (Some q) =
    Some (Some (dst\<lparr>ip_version := OFC_FAMILY_IP, ipv4_addr := ipv4_addr ip\<rparr>), Some port)"
  using assms sockaddr_in_fields [OF assms]
  by (simp add: unmake_sockaddr_def net_order_ok_def)

text \<open>
  C30. An IPv6 address and port written into a socket address are read back, except the scope,
  which keeps its old value.
\<close>

theorem sockaddr_v6_roundtrip:
  assumes "net_order_ok E" and "length (s6_addr ip) = 16"
  shows "unmake_sockaddr E (sockaddr_in6 E ip port) (Some dst) (Some q) =
    Some (Some (dst\<lparr>ip_version := OFC_FAMILY_IPV6, s6_addr := s6_addr ip\<rparr>), Some port)"
  using assms sockaddr_in6_fields [OF assms(1)]
  by (simp add: unmake_sockaddr_def net_order_ok_def map_nth_16)

theorem accept_v6_overread:
  assumes "net_order_ok E"
  shows "unmake_sockaddr E (take sizeof_sockaddr (sockaddr_in6 E ip port)) (Some dst) q = None"
proof -
  let ?sa = "sockaddr_in6 E ip port"
  have "peek 0 2 (take 16 ?sa) = peek 0 2 ?sa"
    using sockaddr_in6_fields(1) [OF assms] by (simp add: peek_def)
  moreover have "peek 8 16 (take 16 ?sa) = None"
    using sockaddr_in6_fields(1) [OF assms] by (simp add: peek_def)
  ultimately show ?thesis
    using sockaddr_in6_fields(2) [OF assms] by (simp add: unmake_sockaddr_def)
qed

section \<open>Event masks\<close>

lemma or_if_and:
  "(if b then t OR m else t) AND c = (0::'a::len word) \<longleftrightarrow> t AND c = 0 \<and> (b \<longrightarrow> m AND c = 0)"
  by (simp add: bit.conj_disj_distrib2 or_eq_0_iff)

lemma or_and_zero: "(a OR b) AND c = (0::'a::len word) \<longleftrightarrow> a AND c = 0 \<and> b AND c = 0"
  by (simp add: bit.conj_disj_distrib2 or_eq_0_iff)

lemma and_or_zero: "c AND (a OR b) = (0::'a::len word) \<longleftrightarrow> c AND a = 0 \<and> c AND b = 0"
  by (simp add: bit.conj_disj_distrib or_eq_0_iff)

lemma event_bits_facts:
  assumes "event_bits_ok E"
  shows
    "EVENT_CLOSE E AND EVENT_ACCEPT E = 0" and "EVENT_CLOSE E AND EVENT_ADDRESSCHANGE E = 0"
    and "EVENT_CLOSE E AND EVENT_QOS E = 0" and "EVENT_CLOSE E AND EVENT_READ E = 0"
    and "EVENT_CLOSE E AND EVENT_WRITE E = 0" and "EVENT_ACCEPT E AND EVENT_CLOSE E = 0"
    and "EVENT_ACCEPT E AND EVENT_ADDRESSCHANGE E = 0" and "EVENT_ACCEPT E AND EVENT_QOS E = 0"
    and "EVENT_ACCEPT E AND EVENT_READ E = 0" and "EVENT_ACCEPT E AND EVENT_WRITE E = 0"
    and "EVENT_ADDRESSCHANGE E AND EVENT_CLOSE E = 0" and "EVENT_ADDRESSCHANGE E AND EVENT_ACCEPT E = 0"
    and "EVENT_ADDRESSCHANGE E AND EVENT_QOS E = 0" and "EVENT_ADDRESSCHANGE E AND EVENT_READ E = 0"
    and "EVENT_ADDRESSCHANGE E AND EVENT_WRITE E = 0" and "EVENT_QOS E AND EVENT_CLOSE E = 0"
    and "EVENT_QOS E AND EVENT_ACCEPT E = 0" and "EVENT_QOS E AND EVENT_ADDRESSCHANGE E = 0"
    and "EVENT_QOS E AND EVENT_READ E = 0" and "EVENT_QOS E AND EVENT_WRITE E = 0"
    and "EVENT_READ E AND EVENT_CLOSE E = 0" and "EVENT_READ E AND EVENT_ACCEPT E = 0"
    and "EVENT_READ E AND EVENT_ADDRESSCHANGE E = 0" and "EVENT_READ E AND EVENT_QOS E = 0"
    and "EVENT_READ E AND EVENT_WRITE E = 0" and "EVENT_WRITE E AND EVENT_CLOSE E = 0"
    and "EVENT_WRITE E AND EVENT_ACCEPT E = 0" and "EVENT_WRITE E AND EVENT_ADDRESSCHANGE E = 0"
    and "EVENT_WRITE E AND EVENT_QOS E = 0" and "EVENT_WRITE E AND EVENT_READ E = 0"
    and "EVENT_CLOSE E \<noteq> 0" and "EVENT_ACCEPT E \<noteq> 0" and "EVENT_ADDRESSCHANGE E \<noteq> 0"
    and "EVENT_QOS E \<noteq> 0" and "EVENT_READ E \<noteq> 0" and "EVENT_WRITE E \<noteq> 0"
  using assms by (simp_all add: event_bits_ok_def event_bits_def and.commute)

lemma test_mask_bits:
  assumes "event_bits_ok E"
  shows "test_mask E closed re AND EVENT_CLOSE E \<noteq> 0 \<longleftrightarrow> closed \<or> re AND POLLHUP \<noteq> 0"
    and "test_mask E closed re AND EVENT_ACCEPT E \<noteq> 0 \<longleftrightarrow> re AND POLLIN \<noteq> 0"
    and "test_mask E closed re AND EVENT_READ E \<noteq> 0 \<longleftrightarrow> re AND POLLIN \<noteq> 0"
    and "test_mask E closed re AND EVENT_ADDRESSCHANGE E \<noteq> 0 \<longleftrightarrow> re AND POLLERR \<noteq> 0"
    and "test_mask E closed re AND EVENT_QOS E \<noteq> 0 \<longleftrightarrow> re AND POLLPRI \<noteq> 0"
    and "test_mask E closed re AND EVENT_WRITE E \<noteq> 0 \<longleftrightarrow> re AND POLLOUT \<noteq> 0"
  by (simp_all add: test_mask_def Let_def or_if_and or_and_zero event_bits_facts [OF assms]
      split del: if_split)

lemma enable_mask_bits:
  shows "enable_mask E t AND POLLHUP \<noteq> 0 \<longleftrightarrow> t AND EVENT_CLOSE E \<noteq> 0"
    and "enable_mask E t AND POLLIN \<noteq> 0 \<longleftrightarrow> t AND EVENT_ACCEPT E \<noteq> 0 \<or> t AND EVENT_READ E \<noteq> 0"
    and "enable_mask E t AND POLLERR \<noteq> 0 \<longleftrightarrow> t AND EVENT_ADDRESSCHANGE E \<noteq> 0"
    and "enable_mask E t AND POLLPRI \<noteq> 0 \<longleftrightarrow> t AND EVENT_QOS E \<noteq> 0"
    and "enable_mask E t AND POLLOUT \<noteq> 0 \<longleftrightarrow> t AND EVENT_WRITE E \<noteq> 0"
  by (auto simp: enable_mask_def Let_def or_if_and split del: if_split)

section \<open>A live socket\<close>

text \<open>A handle that locks to a structure in memory, and the operations on its event fields.\<close>

definition socket_at :: "env \<Rightarrow> handle \<Rightarrow> ptr \<Rightarrow> socket_impl \<Rightarrow> world \<Rightarrow> bool" where
  "socket_at E h p s w \<longleftrightarrow> locks_to E h p \<and> \<not> dead (calls w) h \<and> sock_mem w p = Some s"

lemma socket_at_lock:
  "socket_at E h p s w \<Longrightarrow>
   ofc_handle_lock E h w = (p, logged (Pkg (HandleLock h)) (respond E (calls w) (Pkg (HandleLock h))) w)"
  by (simp add: socket_at_def lock_live)

lemma socket_atD:
  assumes "socket_at E h p s w"
  shows "p \<noteq> OFC_NULL" and "\<not> dead (calls w) h" and "sock_mem w p = Some s"
  using assms locks_to_nonnull by (auto simp: socket_at_def)

lemma enable_live:
  assumes "socket_at E h p s w"
  shows "yields (ofc_socket_impl_enable E h t w) (\<lambda>(ok, w').
    ok \<and> socket_at E h p (s\<lparr>s_events := Some (enable_mask E t)\<rparr>) w' \<and>
    sock_mem w' = (sock_mem w)(p \<mapsto> s\<lparr>s_events := Some (enable_mask E t)\<rparr>))"
  using assms socket_atD [OF assms] socket_at_lock [OF assms]
  by (simp add: wp ofc_socket_impl_enable_def Let_def socket_at_def split: call_splits)

lemma get_event_live:
  assumes "socket_at E h p s w" and "s_events s = Some ev"
  shows "yields (ofc_socket_impl_get_event E h w) (\<lambda>(v, w').
    v = ev \<and> socket_at E h p s w' \<and> sock_mem w' = sock_mem w)"
  using assms socket_atD [OF assms(1)] socket_at_lock [OF assms(1)]
  by (simp add: wp ofc_socket_impl_get_event_def Let_def socket_at_def split: call_splits)

lemma set_event_live:
  assumes "socket_at E h p s w"
  shows "yields (ofc_socket_impl_set_event E h re w) (\<lambda>w'.
    socket_at E h p (s\<lparr>s_revents := Some re\<rparr>) w' \<and>
    sock_mem w' = (sock_mem w)(p \<mapsto> s\<lparr>s_revents := Some re\<rparr>))"
  using assms socket_atD [OF assms] socket_at_lock [OF assms]
  by (simp add: wp ofc_socket_impl_set_event_def Let_def socket_at_def split: call_splits)

lemma get_fd_live:
  assumes "socket_at E h p s w"
  shows "yields (ofc_socket_impl_get_fd E h w) (\<lambda>(v, w').
    v = s_socket s \<and> socket_at E h p s w' \<and> sock_mem w' = sock_mem w)"
  using assms socket_atD [OF assms] socket_at_lock [OF assms]
  by (simp add: wp ofc_socket_impl_get_fd_def Let_def socket_at_def split: call_splits)

lemma test_live:
  assumes "socket_at E h p s w" and "s_revents s = Some re"
  shows "yields (ofc_socket_impl_test E h w) (\<lambda>(m, w').
    m = test_mask E (s_remote_closed s) re \<and> socket_at E h p s w' \<and> sock_mem w' = sock_mem w)"
  using assms socket_atD [OF assms(1)] socket_at_lock [OF assms(1)]
  by (simp add: wp ofc_socket_impl_test_def Let_def socket_at_def split: call_splits)

lemma mask_subset_and:
  assumes "m AND NOT n = (0::'a::len word)" and "m AND k \<noteq> 0"
  shows "n AND k \<noteq> 0"
proof
  assume "n AND k = 0"
  have "m = m AND n"
    using assms(1) by (metis bit.conj_cancel_right bit.conj_disj_distrib bit.conj_one_right
        bit.disj_cancel_right or.right_neutral)
  then have "m AND k = m AND (n AND k)" by (metis and.assoc)
  with \<open>n AND k = 0\<close> assms(2) show False by simp
qed

lemma poll_masks:
  assumes "event_bits_ok E" and "re AND NOT (enable_mask E t OR POLLERR OR POLLHUP) = 0"
    and m: "m = test_mask E False re"
  shows "m AND EVENT_WRITE E \<noteq> 0 \<Longrightarrow> t AND EVENT_WRITE E \<noteq> 0"
    and "m AND EVENT_QOS E \<noteq> 0 \<Longrightarrow> t AND EVENT_QOS E \<noteq> 0"
    and "m AND (EVENT_READ E OR EVENT_ACCEPT E) \<noteq> 0 \<Longrightarrow> t AND (EVENT_READ E OR EVENT_ACCEPT E) \<noteq> 0"
proof -
  have sub: "re AND k \<noteq> 0 \<Longrightarrow> enable_mask E t AND k \<noteq> 0" if "POLLERR AND k = 0" "POLLHUP AND k = 0" for k
    using mask_subset_and [OF assms(2), of k] that by (auto simp only: or_and_zero)
  note bits = test_mask_bits [OF assms(1), of False re] enable_mask_bits [of E t]
  show "m AND EVENT_WRITE E \<noteq> 0 \<Longrightarrow> t AND EVENT_WRITE E \<noteq> 0"
    using sub [of POLLOUT] bits m by simp
  show "m AND EVENT_QOS E \<noteq> 0 \<Longrightarrow> t AND EVENT_QOS E \<noteq> 0"
    using sub [of POLLPRI] bits m by simp
  show "m AND (EVENT_READ E OR EVENT_ACCEPT E) \<noteq> 0 \<Longrightarrow> t AND (EVENT_READ E OR EVENT_ACCEPT E) \<noteq> 0"
    using sub [of POLLIN] bits m by (auto simp: and_or_zero)
qed

text \<open>
  C5. Enabling events, polling and testing agree: the poll mask is the translation of the
  enabled events, and when the kernel reports only what was asked for (or an error or hang-up)
  the test reports a write or an urgent event only if that event was enabled, and a read or an
  accept event, which share one bit of the mask, only if reading or accepting was enabled.
\<close>

theorem poll_cycle:
  assumes bits: "event_bits_ok E"
    and live: "socket_at E h p s w" "\<not> s_remote_closed s"
    and kernel: "re AND NOT (enable_mask E t OR POLLERR OR POLLHUP) = 0"
  shows "yields (do {
      (ok, w) \<leftarrow> ofc_socket_impl_enable E h t w;
      (ev, w) \<leftarrow> ofc_socket_impl_get_event E h w;
      w \<leftarrow> ofc_socket_impl_set_event E h re w;
      (m, w) \<leftarrow> ofc_socket_impl_test E h w;
      Some ((ev, m), w) })
    (\<lambda>((ev, m), w'). ev = enable_mask E t \<and> m = test_mask E False re \<and>
       (m AND EVENT_WRITE E \<noteq> 0 \<longrightarrow> t AND EVENT_WRITE E \<noteq> 0) \<and>
       (m AND EVENT_QOS E \<noteq> 0 \<longrightarrow> t AND EVENT_QOS E \<noteq> 0) \<and>
       (m AND (EVENT_READ E OR EVENT_ACCEPT E) \<noteq> 0 \<longrightarrow>
          t AND (EVENT_READ E OR EVENT_ACCEPT E) \<noteq> 0) \<and>
       sock_mem w' = (sock_mem w)(p \<mapsto>
         s\<lparr>s_events := Some (enable_mask E t), s_revents := Some re\<rparr>))"
proof -
  from enable_live [OF live(1), of t] obtain w1 where 1:
    "ofc_socket_impl_enable E h t w = Some (True, w1)"
    "socket_at E h p (s\<lparr>s_events := Some (enable_mask E t)\<rparr>) w1"
    "sock_mem w1 = (sock_mem w)(p \<mapsto> s\<lparr>s_events := Some (enable_mask E t)\<rparr>)"
    by (auto elim!: yieldsE)
  from get_event_live [OF 1(2), of "enable_mask E t"] obtain w2 where 2:
    "ofc_socket_impl_get_event E h w1 = Some (enable_mask E t, w2)"
    "socket_at E h p (s\<lparr>s_events := Some (enable_mask E t)\<rparr>) w2" "sock_mem w2 = sock_mem w1"
    by (auto elim!: yieldsE)
  from set_event_live [OF 2(2), of re] obtain w3 where 3:
    "ofc_socket_impl_set_event E h re w2 = Some w3"
    "socket_at E h p (s\<lparr>s_events := Some (enable_mask E t), s_revents := Some re\<rparr>) w3"
    "sock_mem w3 = (sock_mem w2)(p \<mapsto> s\<lparr>s_events := Some (enable_mask E t), s_revents := Some re\<rparr>)"
    by (auto elim!: yieldsE)
  from test_live [OF 3(2), of re] obtain w4 where 4:
    "ofc_socket_impl_test E h w3 = Some (test_mask E False re, w4)" "sock_mem w4 = sock_mem w3"
    using live(2) by (auto elim!: yieldsE)
  show ?thesis
    using 1 2 3 4 poll_masks [OF bits kernel refl] by (simp add: wp)
qed

theorem poll_cycle_witness:
  "\<exists>w'. yields (do {
      (ok, w) \<leftarrow> ofc_socket_impl_enable (const_env 64 0) 7 32 w';
      (ev, w) \<leftarrow> ofc_socket_impl_get_event (const_env 64 0) 7 w;
      w \<leftarrow> ofc_socket_impl_set_event (const_env 64 0) 7 POLLOUT w;
      (m, w) \<leftarrow> ofc_socket_impl_test (const_env 64 0) 7 w;
      Some ((ev, m), w) }) (\<lambda>((ev, m), w). ev = POLLOUT \<and> m AND EVENT_WRITE (const_env 64 0) \<noteq> 0)"
proof -
  let ?s = "\<lparr>s_socket = 3, s_family = None, s_events = None, s_revents = None, s_ip = None, s_remote_closed = False\<rparr>"
  let ?w = "empty_world\<lparr>sock_mem := [64 \<mapsto> ?s]\<rparr>"
  have m: "enable_mask (const_env 64 0) 32 = POLLOUT" "test_mask (const_env 64 0) False POLLOUT = 32"
    "EVENT_WRITE (const_env 64 0) = 32"
    by (simp_all add: enable_mask_def test_mask_def const_env_def ref_env_def)
  have "socket_at (const_env 64 0) 7 64 ?s ?w"
    by (simp add: socket_at_def locks_const)
  from poll_cycle [OF const_env_ok(2) this, of POLLOUT 32] show ?thesis
    by (intro exI [of _ ?w]) (auto simp: m elim!: yields_mono)
qed

section \<open>What each operation returns\<close>

text \<open>
  The operations on a live socket, for every answer \<open>r\<close> the kernel may give to the one
  system call they make.
\<close>

lemma recv_live:
  assumes at: "socket_at E h p s w"
    and r: "\<And>hist. respond E hist (Sys (SysRecv (s_socket s) (int_of_size len))) = r"
  shows "yields (ofc_socket_impl_recv E h len w) (\<lambda>(n, w').
    n = (if r_ret r > 0 then size_of_int (r_ret r) else 0) \<and>
    (let s' = (if r_ret r > 0 \<or> (r_ret r = -1 \<and> r_err r = EAGAIN) then s
               else s\<lparr>s_remote_closed := True\<rparr>)
     in socket_at E h p s' w' \<and> sock_mem w' = (sock_mem w)(p \<mapsto> s')))"
  using at socket_atD [OF at] socket_at_lock [OF at]
  by (auto simp: wp ofc_socket_impl_recv_def Let_def socket_at_def call_known [OF r] fun_upd_idem
      split: call_splits)

lemma connected_live:
  assumes at: "socket_at E h p s w"
    and r: "\<And>hist. respond E hist (Sys (SysGetpeername (s_socket s) sizeof_sockaddr)) = r"
  shows "yields (ofc_socket_impl_connected E h w) (\<lambda>(b, w').
    b = (\<not> s_remote_closed s \<and> r_ret r \<noteq> -1) \<and> socket_at E h p s w' \<and> sock_mem w' = sock_mem w)"
  using at socket_atD [OF at] socket_at_lock [OF at]
  by (auto simp: wp ofc_socket_impl_connected_def Let_def socket_at_def call_known [OF r]
      split: call_splits)

lemma int_of_size_small: "uint len < 2 ^ 31 \<Longrightarrow> int_of_size len = uint len"
  unfolding int_of_size_def signed_ucast_eq
  by (subst signed_take_bit_int_eq_self) (auto intro: order_trans [OF _ uint_ge_0])

lemma uint_size_of_int:
  "0 \<le> i \<Longrightarrow> i < 2 ^ 31 \<Longrightarrow> uint (size_of_int i) = i"
  by (simp add: size_of_int_def uint_word_of_int_eq take_bit_int_eq_self)

definition sent :: "resp \<Rightarrow> 64 word" where
  "sent r = (if r_ret r = -1 \<and> r_err r = EAGAIN then 0
             else if r_ret r \<ge> 0 then size_of_int (r_ret r) else -1)"

lemma sent_bounds:
  assumes "uint len < 2 ^ 31" and "-1 \<le> r_ret r" and "r_ret r \<le> int_of_size len"
  shows "(sent r = -1 \<longleftrightarrow> r_ret r = -1 \<and> r_err r \<noteq> EAGAIN) \<and> (sent r \<noteq> -1 \<longrightarrow> sent r \<le> len)"
proof (cases "r_ret r \<ge> 0")
  case True
  then have u: "uint (size_of_int (r_ret r)) = r_ret r"
    using assms by (intro uint_size_of_int) (simp_all add: int_of_size_small)
  then have "size_of_int (r_ret r) \<le> len"
    using assms(1,3) by (simp add: word_le_def int_of_size_small)
  moreover have "size_of_int (r_ret r) \<noteq> -1"
  proof
    assume "size_of_int (r_ret r) = -1"
    then have "uint (-1 :: 64 word) = r_ret r" using u by simp
    then show False using assms(1,3) by (simp add: int_of_size_small unsigned_minus_1_eq_mask mask_eq_exp_minus_1)
  qed
  ultimately show ?thesis using True by (simp add: sent_def)
next
  case False
  then show ?thesis using assms(2) by (simp add: sent_def)
qed

lemma send_live:
  assumes at: "socket_at E h p s w"
    and r: "\<And>hist. respond E hist (Sys (SysSend (s_socket s) bs (int_of_size len))) = r"
  shows "yields (ofc_socket_impl_send E h bs len w) (\<lambda>(n, w').
    n = sent r \<and> socket_at E h p s w' \<and> sock_mem w' = sock_mem w)"
  using at socket_atD [OF at] socket_at_lock [OF at]
  by (simp add: wp ofc_socket_impl_send_def Let_def socket_at_def call_known [OF r] sent_def
      split: call_splits)

text \<open>
  C27. When a receive returns no data or an error other than EAGAIN, the socket counts as closed
  by its peer: the call returns 0, the socket is no longer connected and its next test reports
  the close event.
\<close>

theorem recv_closes:
  assumes at: "socket_at E h p s w" "s_revents s = Some re"
    and bits: "event_bits_ok E"
    and r: "\<And>hist. respond E hist (Sys (SysRecv (s_socket s) (int_of_size len))) = r"
      "r_ret r \<le> 0" "\<not> (r_ret r = -1 \<and> r_err r = EAGAIN)"
    and name: "\<And>hist. respond E hist (Sys (SysGetpeername (s_socket s) sizeof_sockaddr)) = r'"
  shows "yields (do {
      (n, w) \<leftarrow> ofc_socket_impl_recv E h len w;
      (b, w) \<leftarrow> ofc_socket_impl_connected E h w;
      (m, w) \<leftarrow> ofc_socket_impl_test E h w;
      Some ((n, b, m), w) })
    (\<lambda>((n, b, m), w'). n = 0 \<and> \<not> b \<and> m AND EVENT_CLOSE E \<noteq> 0)"
proof -
  let ?s = "s\<lparr>s_remote_closed := True\<rparr>"
  from recv_live [OF at(1) r(1)] r(2,3) obtain w1 where 1:
    "ofc_socket_impl_recv E h len w = Some (0, w1)" "socket_at E h p ?s w1"
    by (auto simp: Let_def elim!: yieldsE)
  from connected_live [OF 1(2), of r'] name obtain w2 where 2:
    "ofc_socket_impl_connected E h w1 = Some (False, w2)" "socket_at E h p ?s w2"
    by (auto elim!: yieldsE)
  from test_live [OF 2(2), of re] at(2) obtain w3 where 3:
    "ofc_socket_impl_test E h w2 = Some (test_mask E True re, w3)"
    by (auto elim!: yieldsE)
  show ?thesis
    using 1 2 3 test_mask_bits(1) [OF bits, of True re] by (simp add: wp)
qed

theorem recv_closes_witness:
  "\<exists>w'. yields (do {
      (n, w) \<leftarrow> ofc_socket_impl_recv (const_env 64 (-1)) 7 10 w';
      (b, w) \<leftarrow> ofc_socket_impl_connected (const_env 64 (-1)) 7 w;
      (m, w) \<leftarrow> ofc_socket_impl_test (const_env 64 (-1)) 7 w;
      Some ((n, b, m), w) })
    (\<lambda>((n, b, m), w). n = 0 \<and> \<not> b \<and> m AND EVENT_CLOSE (const_env 64 (-1)) \<noteq> 0)"
proof -
  let ?s = "\<lparr>s_socket = 3, s_family = None, s_events = None, s_revents = Some 0, s_ip = None,
            s_remote_closed = False\<rparr>"
  let ?w = "empty_world\<lparr>sock_mem := [64 \<mapsto> ?s]\<rparr>"
  have "socket_at (const_env 64 (-1)) 7 64 ?s ?w"
    by (simp add: socket_at_def locks_const)
  from recv_closes [OF this _ const_env_ok(2) respond_const _ _ respond_const, of 0 10] show ?thesis
    by (intro exI [of _ ?w]) (simp add: no_resp_def)
qed

lemma socket_at_addr:
  "socket_at E h p s w \<Longrightarrow> r_addr (respond E (calls w) (Pkg (HandleLock h))) = p"
  by (simp add: socket_at_def locks_to_def)

section \<open>Ownership of the structures\<close>

lemma socket_step_owned:
  assumes "fresh_alloc E" and "owned sock_mem w"
  shows "returns (socket_step E op w) (owned sock_mem)"
  using assms(2)
  by (cases op) (auto simp: socket_defs make_sockaddr_def owned_def Let_def wp
      dest: fresh_allocD [OF assms(1)] split: call_splits)

interpretation socket: structure_owner "socket_step E" sock_mem E
  by unfold_locales (rule socket_step_locks, rule socket_step_owned)

definition keeps_closed :: "world \<Rightarrow> world \<Rightarrow> bool" where
  "keeps_closed w w' \<longleftrightarrow> (\<forall>p s s'. sock_mem w p = Some s \<longrightarrow> sock_mem w' p = Some s' \<longrightarrow>
     s_socket s' = s_socket s \<and> (s_remote_closed s \<longrightarrow> s_remote_closed s'))"

lemma socket_step_closed:
  assumes "fresh_alloc E" and "owned sock_mem w"
  shows "returns (socket_step E op w) (keeps_closed w)"
  using ownedD [OF assms(2)]
  by (cases op) (auto simp: socket_defs make_sockaddr_def keeps_closed_def Let_def wp
      dest: fresh_allocD [OF assms(1)] split: call_splits)

lemma socket_step_foreign:
  assumes "fresh_alloc E" and "owned sock_mem w"
    and "\<And>h. op = Destroy h \<Longrightarrow> \<exists>p s. socket_at E h p s w"
  shows "returns (socket_step E op w) (same_foreign sock_mem w)"
proof (cases "\<exists>h. op = Destroy h")
  case True
  then obtain h p s where op: "op = Destroy h" and at: "socket_at E h p s w"
    using assms(3) by blast
  show ?thesis
    using socket_atD [OF at] socket_at_lock [OF at]
    by (auto simp: op ofc_socket_impl_destroy_def same_foreign_def foreign_blocks_def Let_def wp
        split: call_splits)
next
  case False
  then show ?thesis
    using ownedD [OF assms(2)]
    by (cases op) (auto simp: socket_defs make_sockaddr_def same_foreign_def foreign_blocks_def Let_def wp
        dest: fresh_allocD [OF assms(1)] split: call_splits)
qed

text \<open>
  C28. Creating a socket returns the null handle and frees its block when the kernel refuses;
  otherwise the new socket has the descriptor of the family and type asked for, no events, is
  open, and may broadcast exactly when it is a datagram socket.
\<close>

theorem create_outcome:
  assumes m: "\<And>hist. respond E hist (Pkg Malloc) = m"
    and r: "\<And>hist a b c. respond E hist (Sys (SysSocket a b c)) = r"
    and hc: "\<And>hist p. respond E hist (Pkg (HandleCreate OFC_HANDLE_SOCKET_IMPL p)) = hc"
  shows "yields (ofc_socket_impl_create E f ty w) (\<lambda>(h, w').
    if r_addr m = OFC_NULL then h = OFC_HANDLE_NULL \<and> sock_mem w' = sock_mem w
    else (Sys (case ty of
             SOCKET_TYPE_STREAM \<Rightarrow> SysSocket (if f = OFC_FAMILY_IP then AF_INET else AF_INET6) SOCK_STREAM IPPROTO_TCP
           | SOCKET_TYPE_ICMP \<Rightarrow> (if f = OFC_FAMILY_IP then SysSocket AF_INET SOCK_RAW IPPROTO_ICMP
                                  else SysSocket AF_INET6 SOCK_RAW IPPROTO_ICMPV6)
           | _ \<Rightarrow> SysSocket (if f = OFC_FAMILY_IP then AF_INET else AF_INET6) SOCK_DGRAM IPPROTO_UDP), r)
         \<in> set (calls w') \<and>
      (if r_ret r < 0 then h = OFC_HANDLE_NULL \<and> sock_mem w' = sock_mem w \<and> same_blocks w w'
       else h = r_addr hc \<and>
         (\<exists>s. sock_mem w' = (sock_mem w)(r_addr m \<mapsto> s) \<and> s_socket s = r_ret r \<and>
              s_events s = Some 0 \<and> s_revents s = Some 0 \<and> \<not> s_remote_closed s) \<and>
         (Sys (SysSetsockopt (r_ret r) SO_BROADCAST 1) \<in> fst ` set (take 3 (calls w')) \<longleftrightarrow>
            ty = SOCKET_TYPE_DGRAM)))"
  by (cases ty) (auto simp: wp ofc_socket_impl_create_def Let_def call_known [OF m] call_known [OF r]
      call_known [OF hc] same_blocks_def split: call_splits)

lemma accept_live:
  assumes at: "socket_at E h p s w"
    and m: "\<And>hist. respond E hist (Pkg Malloc) = m" "r_addr m \<noteq> OFC_NULL" "r_addr m \<noteq> p"
    and r: "\<And>hist. respond E hist (Sys (SysAccept (s_socket s) sizeof_sockaddr)) = r" "r_ret r \<noteq> -1"
    and hc: "\<And>hist. respond E hist (Pkg (HandleCreate OFC_HANDLE_SOCKET_IMPL (r_addr m))) = hc"
    and un: "unmake_sockaddr E (take sizeof_sockaddr (r_buf r)) ip port = Some (ip', port')"
  shows "yields (ofc_socket_impl_accept E h ip port w) (\<lambda>(res, w').
    res = (r_addr hc, ip', port') \<and> (\<forall>g. dead (calls w') g = dead (calls w) g) \<and>
    sock_mem w' = (sock_mem w)(r_addr m \<mapsto>
      \<lparr>s_socket = r_ret r, s_family = None, s_events = None, s_revents = None, s_ip = None,
       s_remote_closed = False\<rparr>))"
  using socket_atD [OF at] socket_at_lock [OF at] m(2,3) r(2) un
  by (simp add: wp ofc_socket_impl_accept_def Let_def call_known [OF m(1)] call_known [OF r(1)]
      call_known [OF hc] split: call_splits)

text \<open>
  C31. Accepting an IPv4 connection returns a new socket with the accepted descriptor and the
  address and port of the peer. Its event fields are not initialised: testing it, or asking for
  its events, before they are set reads memory that was never written.
\<close>

theorem accept_v4:
  assumes at: "socket_at E h p s w" and ord: "net_order_ok E"
    and m: "\<And>hist. respond E hist (Pkg Malloc) = m" "r_addr m \<noteq> OFC_NULL" "r_addr m \<noteq> p"
    and r: "\<And>hist. respond E hist (Sys (SysAccept (s_socket s) sizeof_sockaddr)) = r" "r_ret r \<noteq> -1"
      "r_buf r = sockaddr_in E peer pport"
    and hc: "\<And>hist. respond E hist (Pkg (HandleCreate OFC_HANDLE_SOCKET_IMPL (r_addr m))) = hc"
    and new: "locks_to E (r_addr hc) (r_addr m)" "\<not> dead (calls w) (r_addr hc)"
  shows "yields (ofc_socket_impl_accept E h (Some dst) (Some q) w) (\<lambda>((h', ip', port'), w').
    h' = r_addr hc \<and> port' = Some pport \<and>
    ip' = Some (dst\<lparr>ip_version := OFC_FAMILY_IP, ipv4_addr := ipv4_addr peer\<rparr>) \<and>
    yields (ofc_socket_impl_get_fd E h' w') (\<lambda>(fd, _). fd = r_ret r) \<and>
    ofc_socket_impl_test E h' w' = None \<and> ofc_socket_impl_get_event E h' w' = None)"
proof -
  let ?s = "\<lparr>s_socket = r_ret r, s_family = None, s_events = None, s_revents = None,
            s_ip = None, s_remote_closed = False\<rparr>"
  have "take sizeof_sockaddr (r_buf r) = sockaddr_in E peer pport"
    using sockaddr_in_fields(1) [OF ord] r(3) by simp
  then have "unmake_sockaddr E (take sizeof_sockaddr (r_buf r)) (Some dst) (Some q) =
      Some (Some (dst\<lparr>ip_version := OFC_FAMILY_IP, ipv4_addr := ipv4_addr peer\<rparr>), Some pport)"
    using sockaddr_v4_roundtrip [OF ord] by simp
  from accept_live [OF at m r(1,2) hc this] obtain w' where acc:
    "ofc_socket_impl_accept E h (Some dst) (Some q) w =
      Some ((r_addr hc, Some (dst\<lparr>ip_version := OFC_FAMILY_IP, ipv4_addr := ipv4_addr peer\<rparr>),
             Some pport), w')"
    and at': "socket_at E (r_addr hc) (r_addr m) ?s w'"
    using new by (auto simp: socket_at_def elim!: yieldsE)
  have "ofc_socket_impl_test E (r_addr hc) w' = None" "ofc_socket_impl_get_event E (r_addr hc) w' = None"
    using socket_atD [OF at'] socket_at_lock [OF at']
    by (simp_all add: ofc_socket_impl_test_def ofc_socket_impl_get_event_def)
  moreover have "yields (ofc_socket_impl_get_fd E (r_addr hc) w') (\<lambda>(fd, _). fd = r_ret r)"
    using get_fd_live [OF at'] by (auto elim!: yields_mono)
  ultimately show ?thesis
    using acc by (simp add: wp)
qed

text \<open>
  C32. Accepting an IPv6 connection is undefined: the address is read from a 16-byte structure
  that holds only the first part of the 28 bytes of an IPv6 socket address.
\<close>

theorem accept_v6_undefined:
  assumes at: "socket_at E h p s w" and ord: "net_order_ok E"
    and m: "\<And>hist. respond E hist (Pkg Malloc) = m"
    and r: "\<And>hist. respond E hist (Sys (SysAccept (s_socket s) sizeof_sockaddr)) = r" "r_ret r \<noteq> -1"
      "r_buf r = sockaddr_in6 E peer pport"
  shows "ofc_socket_impl_accept E h (Some dst) q w = None"
  using socket_atD [OF at] socket_at_lock [OF at] r(2,3) accept_v6_overread [OF ord, of peer pport dst q]
  by (simp add: ofc_socket_impl_accept_def Let_def call_known [OF m(1)] call_known [OF r(1)])

theorem sendto_errno:
  assumes at: "socket_at E h p s w"
    and m: "\<And>hist. respond E hist (Pkg Malloc) = m" "r_addr m \<noteq> OFC_NULL"
    and r: "\<And>hist sa. respond E hist (Sys (SysSendto (s_socket s) bs (int_of_size len) sa)) = r"
    and f: "\<And>hist. respond E hist (Pkg (Free (r_addr m))) = f"
  shows "yields (ofc_socket_impl_sendto E h bs len ip port w) (\<lambda>(n, w').
    n = (if r_ret r = -1 then if r_err f = EAGAIN then 0 else -1
         else if r_ret r \<ge> 0 then size_of_int (r_ret r) else -1) \<and>
    sock_mem w' = sock_mem w \<and> same_blocks w w' \<and> same_locks w w')"
  using socket_atD [OF at] socket_at_lock [OF at] socket_at_addr [OF at] m(2)
  by (auto simp: wp ofc_socket_impl_sendto_def make_sockaddr_def Let_def call_known [OF m(1)]
      call_known [OF r] call_known [OF f] same_blocks_def same_locks_def split: call_splits)

theorem get_addresses_names:
  assumes at: "socket_at E h p s w" and ord: "net_order_ok E" and wf: "length (s6_addr b) = 16"
    and m: "\<And>hist. respond E hist (Pkg Malloc) = m" "r_addr m \<noteq> OFC_NULL"
    and r: "\<And>hist. respond E hist (Sys (SysGetsockname (s_socket s) sizeof_sockaddr_in6)) = r"
      "r_ret r = 0" "r_buf r = sockaddr_in E a aport"
    and r': "\<And>hist. respond E hist (Sys (SysGetpeername (s_socket s) sizeof_sockaddr_in6)) = r'"
      "r_ret r' = 0" "r_buf r' = sockaddr_in6 E b bport"
  shows "yields (ofc_socket_impl_get_addresses E h local remote w) (\<lambda>((ok, l, rm), w'). ok \<and>
    l = \<lparr>sin_family = OFC_FAMILY_IP,
         sin_addr = (sin_addr local)\<lparr>ip_version := OFC_FAMILY_IP, ipv4_addr := ipv4_addr a\<rparr>,
         sin_port = aport\<rparr> \<and>
    rm = \<lparr>sin_family = OFC_FAMILY_IPV6,
          sin_addr = (sin_addr remote)\<lparr>ip_version := OFC_FAMILY_IPV6, s6_addr := s6_addr b\<rparr>,
          sin_port = bport\<rparr> \<and> same_blocks w w' \<and> same_locks w w' \<and> sock_mem w' = sock_mem w)"
proof -
  have n: "read_name E q (sockaddr_in E a aport) out = Some \<lparr>sin_family = OFC_FAMILY_IP,
      sin_addr = (sin_addr out)\<lparr>ip_version := OFC_FAMILY_IP, ipv4_addr := ipv4_addr a\<rparr>, sin_port = aport\<rparr>"
    "read_name E q (sockaddr_in6 E b bport) out = Some \<lparr>sin_family = OFC_FAMILY_IPV6,
      sin_addr = (sin_addr out)\<lparr>ip_version := OFC_FAMILY_IPV6, s6_addr := s6_addr b\<rparr>, sin_port = bport\<rparr>"
    if "q \<noteq> OFC_NULL" for q out
    using that sockaddr_in_fields(2) [OF ord] sockaddr_in6_fields(2) [OF ord]
    by (simp_all add: read_name_def sockaddr_v4_roundtrip [OF ord] sockaddr_v6_roundtrip [OF ord wf])
  have t: "take sizeof_sockaddr_in6 (sockaddr_in E a aport) = sockaddr_in E a aport"
    "take sizeof_sockaddr_in6 (sockaddr_in6 E b bport) = sockaddr_in6 E b bport"
    using sockaddr_in_fields(1) [OF ord] sockaddr_in6_fields(1) [OF ord] by simp_all
  show ?thesis
    using socket_atD [OF at] socket_at_lock [OF at] socket_at_addr [OF at] m(2) r(2,3) r'(2,3)
    by (auto simp: wp ofc_socket_impl_get_addresses_def Let_def call_known [OF m(1)] call_known [OF r(1)]
        call_known [OF r'(1)] n t same_blocks_def same_locks_def split: call_splits)
qed

section \<open>Sequences of operations, and instances\<close>

text \<open>One socket in memory, behind handle \<open>h\<close>.\<close>

definition idle_socket :: socket_impl where
  "idle_socket = \<lparr>s_socket = 3, s_family = Some OFC_FAMILY_IP, s_events = Some 0, s_revents = Some 0,
                  s_ip = None, s_remote_closed = False\<rparr>"

definition one_socket :: "handle \<Rightarrow> ptr \<Rightarrow> world" where
  "one_socket h p = empty_world\<lparr>calls := [(Pkg Malloc, no_resp\<lparr>r_addr := p\<rparr>)],
                                sock_mem := [p \<mapsto> idle_socket]\<rparr>"

lemma one_socket_at: "locks_to E h p \<Longrightarrow> socket_at E h p idle_socket (one_socket h p)"
  by (simp add: socket_at_def one_socket_def)

lemma one_socket_owned: "owned sock_mem (one_socket h p)"
  by (simp add: owned_def one_socket_def no_resp_def)

theorem socket_locks_balanced:
  assumes "\<forall>h. held (calls w) h = 0" and "run_ops (socket_step E) ops w = Some w'"
  shows "held (calls w') h = 0"
  using assms by (rule socket.run_unlocked)

theorem socket_locks_balanced_witness:
  "\<exists>w'. run_ops (socket_step (const_env 64 0)) [Close 7, Get_fd 7] (one_socket 7 64) = Some w' \<and>
        held (calls w') 7 = 0"
proof -
  let ?w = "one_socket 7 64"
  obtain w' where w': "run_ops (socket_step (const_env 64 0)) [Close 7, Get_fd 7] ?w = Some w'"
    by (simp add: ofc_socket_impl_close_def ofc_socket_impl_get_fd_def call_addr_def call_void_def
        call_def Let_def one_socket_def no_resp_def)
  have "\<forall>h. held (calls ?w) h = 0"
    by (simp add: one_socket_def)
  from socket_locks_balanced [OF this w'] w' show ?thesis by simp
qed

theorem sockets_stay_owned:
  assumes "fresh_alloc E" and "owned sock_mem w" and "run_ops (socket_step E) ops w = Some w'"
  shows "owned sock_mem w'"
  using assms by (rule socket.run_owned)

lemma create_destroy_run:
  "case run_ops (socket_step (small_env 3 0 [])) [Create OFC_FAMILY_IP SOCKET_TYPE_STREAM, Destroy 7]
     empty_world of None \<Rightarrow> False | Some w' \<Rightarrow> True"
  by code_simp

theorem sockets_stay_owned_witness:
  "\<exists>w'. run_ops (socket_step (small_env 3 0 [])) [Create OFC_FAMILY_IP SOCKET_TYPE_STREAM, Destroy 7]
          empty_world = Some w' \<and> owned sock_mem w'"
proof -
  obtain w' where w': "run_ops (socket_step (small_env 3 0 []))
      [Create OFC_FAMILY_IP SOCKET_TYPE_STREAM, Destroy 7] empty_world = Some w'"
    using create_destroy_run by (auto split: option.splits)
  have "owned sock_mem empty_world"
    by (simp add: owned_def)
  from sockets_stay_owned [OF fresh_small this w'] w' show ?thesis by blast
qed

text \<open>
  C33. No operation on sockets changes the descriptor of an existing socket or reopens one whose
  peer has closed it.
\<close>

theorem socket_closed_for_good:
  assumes "fresh_alloc E" and "owned sock_mem w" and "socket_step E op w = Some w'"
    and "sock_mem w p = Some s" and "sock_mem w' p = Some s'"
  shows "s_socket s' = s_socket s \<and> (s_remote_closed s \<longrightarrow> s_remote_closed s')"
  using returns_D [OF socket_step_closed [OF assms(1,2)] assms(3)] assms(4,5)
  unfolding keeps_closed_def by blast

text \<open>
  C40. An operation on sockets frees every block that it takes for its own use, on every path,
  and the block of a socket exactly when that socket is destroyed, provided the handle destroyed
  is that of a live socket: at every address the allocated blocks that hold no socket are as
  many as before.
\<close>

theorem socket_no_leak:
  assumes "fresh_alloc E" and "owned sock_mem w"
    and "\<And>h. op = Destroy h \<Longrightarrow> \<exists>p s. socket_at E h p s w"
    and "socket_step E op w = Some w'" and "p \<noteq> OFC_NULL"
  shows "blocks (calls w') p - (if sock_mem w' p = None then 0 else 1) =
         blocks (calls w) p - (if sock_mem w p = None then 0 else 1)"
  by (rule same_foreignD [OF returns_D [OF socket_step_foreign [OF assms(1-3)] assms(4)] assms(5)])

lemma destroy_run: "\<exists>w'. socket_step (small_env 0 0 []) (Destroy 7) (one_socket 7 64) = Some w' \<and>
    blocks (calls w') 64 = 0 \<and> sock_mem w' 64 = None"
  using socket_at_lock [OF one_socket_at [OF locks_small(1)]]
  by (simp add: ofc_socket_impl_destroy_def one_socket_def no_resp_def Let_def call_void_def call_def)

theorem socket_no_leak_witness:
  "\<exists>w'. socket_step (small_env 0 0 []) (Destroy 7) (one_socket 7 64) = Some w' \<and>
     blocks (calls w') 64 - (if sock_mem w' 64 = None then 0 else 1) = 0"
proof -
  have at: "socket_at (small_env 0 0 []) 7 64 idle_socket (one_socket 7 64)"
    by (rule one_socket_at [OF locks_small(1)])
  obtain w' where w': "socket_step (small_env 0 0 []) (Destroy 7) (one_socket 7 64) = Some w'"
    using destroy_run by blast
  have "blocks (calls (one_socket 7 64)) 64 - (if sock_mem (one_socket 7 64) 64 = None then 0 else 1) = 0"
    by (simp add: one_socket_def no_resp_def)
  moreover have "\<And>h. Destroy 7 = Destroy h \<Longrightarrow> \<exists>p s. socket_at (small_env 0 0 []) h p s (one_socket 7 64)"
    using at by blast
  ultimately show ?thesis
    using socket_no_leak [OF fresh_small one_socket_owned _ w', of 64] w' by simp
qed

theorem send_counts:
  assumes at: "socket_at E h p s w" and len: "uint len < 2 ^ 31"
    and r: "\<And>hist. respond E hist (Sys (SysSend (s_socket s) bs (int_of_size len))) = r"
      "-1 \<le> r_ret r" "r_ret r \<le> int_of_size len"
  shows "yields (ofc_socket_impl_send E h bs len w) (\<lambda>(n, w').
    (n = -1 \<longleftrightarrow> r_ret r = -1 \<and> r_err r \<noteq> EAGAIN) \<and> (n \<noteq> -1 \<longrightarrow> n \<le> len) \<and>
    sock_mem w' = sock_mem w)"
  using send_live [OF at r(1)] sent_bounds [OF len r(2,3)] by (auto elim!: yields_mono)

theorem send_counts_witness:
  "yields (ofc_socket_impl_send (const_env 64 5) 7 [1, 2, 3, 4, 5, 6] 6 (one_socket 7 64)) (\<lambda>(n, w').
     n \<noteq> -1 \<and> n \<le> 6)"
proof -
  have at: "socket_at (const_env 64 5) 7 64 idle_socket (one_socket 7 64)"
    by (rule one_socket_at [OF locks_const]) simp
  have "int_of_size 6 = 6" by (simp add: int_of_size_def)
  with send_counts [OF at _ respond_const, of 6 "[1, 2, 3, 4, 5, 6]"] show ?thesis
    by (auto simp: no_resp_def elim!: yields_mono)
qed

theorem sendto_errno_witness:
  "yields (ofc_socket_impl_sendto (const_env 64 (-1)) 7 [1] 1
     \<lparr>ip_version = OFC_FAMILY_IP, ipv4_addr = 5, s6_addr = [], ipv6_scope = 0\<rparr> 80 (one_socket 7 64))
     (\<lambda>(n, w'). n = -1)"
proof -
  have at: "socket_at (const_env 64 (-1)) 7 64 idle_socket (one_socket 7 64)"
    by (rule one_socket_at [OF locks_const]) simp
  from sendto_errno [OF at respond_const _ respond_const respond_const, of "[1]" 1
      "\<lparr>ip_version = OFC_FAMILY_IP, ipv4_addr = 5, s6_addr = [], ipv6_scope = 0\<rparr>" 80]
  show ?thesis
    by (auto simp: no_resp_def elim!: yields_mono)
qed

theorem create_outcome_witness:
  "yields (ofc_socket_impl_create (const_env 64 3) OFC_FAMILY_IPV6 SOCKET_TYPE_DGRAM empty_world)
     (\<lambda>(h, w'). h = 64 \<and> (\<exists>s. sock_mem w' 64 = Some s \<and> s_socket s = 3) \<and>
        (Sys (SysSocket AF_INET6 SOCK_DGRAM IPPROTO_UDP), no_resp\<lparr>r_addr := 64, r_ret := 3\<rparr>)
          \<in> set (calls w'))"
  using create_outcome [OF respond_const respond_const respond_const, of 64 3 OFC_FAMILY_IPV6 SOCKET_TYPE_DGRAM empty_world]
  by (auto simp: no_resp_def elim!: yields_mono)

lemma recv_run: "\<exists>w'. socket_step (small_env 0 0 []) (Recv 7 10) (one_socket 7 64) = Some w' \<and>
    sock_mem w' 64 = Some (idle_socket\<lparr>s_remote_closed := True\<rparr>)"
  using socket_at_lock [OF one_socket_at [OF locks_small(1)]]
  by (simp add: ofc_socket_impl_recv_def one_socket_def no_resp_def Let_def call_void_def call_def)

theorem socket_closed_for_good_witness:
  "\<exists>w' s'. socket_step (small_env 0 0 []) (Recv 7 10) (one_socket 7 64) = Some w' \<and>
     sock_mem w' 64 = Some s' \<and> s_socket s' = 3"
proof -
  obtain w' s' where w': "socket_step (small_env 0 0 []) (Recv 7 10) (one_socket 7 64) = Some w'"
    and s': "sock_mem w' 64 = Some s'"
    using recv_run by blast
  have "sock_mem (one_socket 7 64) 64 = Some idle_socket"
    by (simp add: one_socket_def)
  from socket_closed_for_good [OF fresh_small one_socket_owned w' this s'] w' s' show ?thesis
    unfolding idle_socket_def by (metis socket_impl.select_convs(1))
qed

definition some_ip :: ipaddr where
  "some_ip = \<lparr>ip_version = OFC_FAMILY_OTHER 0, ipv4_addr = 3232235777, s6_addr = replicate 16 9, ipv6_scope = 2\<rparr>"

theorem sockaddr_v4_roundtrip_witness:
  "unmake_sockaddr (const_env 0 0) (sockaddr_in (const_env 0 0) some_ip 443) (Some some_ip) (Some 0) =
   Some (Some (some_ip\<lparr>ip_version := OFC_FAMILY_IP\<rparr>), Some 443)"
  using sockaddr_v4_roundtrip [OF const_env_ok(1), of 0 0 some_ip 443 some_ip 0] by (simp add: some_ip_def)

theorem sockaddr_v6_roundtrip_witness:
  "unmake_sockaddr (const_env 0 0) (sockaddr_in6 (const_env 0 0) some_ip 443) (Some some_ip) (Some 0) =
   Some (Some (some_ip\<lparr>ip_version := OFC_FAMILY_IPV6\<rparr>), Some 443)"
  using sockaddr_v6_roundtrip [OF const_env_ok(1), of some_ip 0 0 443 some_ip 0] by (simp add: some_ip_def)

lemma sockaddr_ref: "sockaddr_in (peer_env n bs bs') ip port = sockaddr_in (const_env 0 0) ip port"
    "sockaddr_in6 (peer_env n bs bs') ip port = sockaddr_in6 (const_env 0 0) ip port"
  by (simp_all add: sockaddr_in_def sockaddr_in6_def peer_env_def const_env_def ref_env_def Let_def)

lemma idle_at_peer: "socket_at (peer_env n bs bs') 7 64 idle_socket (one_socket 7 64)"
  by (rule one_socket_at [OF locks_peer(1)])

theorem accept_v4_witness:
  "yields (ofc_socket_impl_accept (peer_env 5 (sockaddr_in (const_env 0 0) some_ip 443) []) 7
      (Some some_ip) (Some 0) (one_socket 7 64))
    (\<lambda>((h', ip', port'), w'). h' = 8 \<and> port' = Some 443 \<and> ip' = Some (some_ip\<lparr>ip_version := OFC_FAMILY_IP\<rparr>))"
  using accept_v4 [OF idle_at_peer peer_env_ok(1) respond_peer(1) _ _ respond_peer(3) _ _ respond_peer(2),
      of "sockaddr_in (const_env 0 0) some_ip 443" 5 "[]" some_ip 443 some_ip 0] locks_peer(2)
  by (auto simp: sockaddr_ref no_resp_def one_socket_def some_ip_def elim!: yields_mono)

theorem accept_v6_undefined_witness:
  "ofc_socket_impl_accept (peer_env 5 (sockaddr_in6 (const_env 0 0) some_ip 443) []) 7
      (Some some_ip) (Some 0) (one_socket 7 64) = None"
  using accept_v6_undefined [OF idle_at_peer peer_env_ok(1) respond_peer(1) respond_peer(3),
      of "sockaddr_in6 (const_env 0 0) some_ip 443" 5 "[]" some_ip 443 some_ip "Some 0"]
  by (simp add: sockaddr_ref no_resp_def)

theorem get_addresses_names_witness:
  "yields (ofc_socket_impl_get_addresses
      (peer_env 0 (sockaddr_in (const_env 0 0) some_ip 443) (sockaddr_in6 (const_env 0 0) some_ip 80)) 7
      \<lparr>sin_family = OFC_FAMILY_OTHER 0, sin_addr = some_ip, sin_port = 0\<rparr>
      \<lparr>sin_family = OFC_FAMILY_OTHER 0, sin_addr = some_ip, sin_port = 0\<rparr> (one_socket 7 64))
    (\<lambda>((ok, l, rm), w'). ok \<and> sin_port l = 443 \<and> sin_port rm = 80 \<and> sin_family rm = OFC_FAMILY_IPV6)"
proof -
  let ?E = "peer_env 0 (sockaddr_in (const_env 0 0) some_ip 443) (sockaddr_in6 (const_env 0 0) some_ip 80)"
  have wf: "length (s6_addr some_ip) = 16"
    by (simp add: some_ip_def)
  show ?thesis
    by (rule yields_mono [OF get_addresses_names [OF idle_at_peer peer_env_ok(1) wf respond_peer(1) _
        respond_peer(4) _ _ respond_peer(5), where a = some_ip and aport = 443 and bport = 80]])
       (auto simp: sockaddr_ref no_resp_def)
qed

end
