(* ===== verification/OFC_WaitPipe.thy ===== *)
theory OFC_WaitPipe
  imports OFC_Reference
begin

text \<open>
  The pipe of a wait set (first part of src/src/waitset\_android.c): creating and destroying it,
  and writing the handle of a signalled event, or the null handle that only wakes the waiter,
  into it. The lemmas show that signalling writes exactly one handle to the set it names, and
  that creation and destruction pair up.
\<close>

section \<open>Operations\<close>

text \<open>
  Neither \<open>ofc_malloc\<close> nor \<open>pipe\<close> is checked. If \<open>pipe\<close> fails the array keeps what
  was in the block; the answer's pair stands for that too.
\<close>

definition set_nonblock :: "env \<Rightarrow> int \<Rightarrow> world \<Rightarrow> world" where
  "set_nonblock E d w =
     (let (flags, w) = call_ret E (Sys (SysGetFl d)) w
      in call_void E (Sys (SysSetFl d (word_of_int flags OR O_NONBLOCK))) w)"

definition ofc_waitset_create_impl :: "env \<Rightarrow> ptr \<Rightarrow> world \<Rightarrow> world option" where
  "ofc_waitset_create_impl E pWaitSet w = do {
     let (p, w) = call_addr E (Pkg Malloc) w;
     ws \<leftarrow> ws_mem w pWaitSet;
     let w = w\<lparr>ws_mem := (ws_mem w)(pWaitSet \<mapsto> ws\<lparr>ws_impl := p\<rparr>)\<rparr>;
     if p = OFC_NULL then None
     else do {
       let (r, w) = call E (Sys SysPipe) w;
       let w = w\<lparr>aws_mem := (aws_mem w)(p \<mapsto>
                 \<lparr>pipe_read = fst (r_pair r), pipe_write = snd (r_pair r)\<rparr>)\<rparr>;
       let w = set_nonblock E (fst (r_pair r)) w;
       Some (set_nonblock E (snd (r_pair r)) w)
     }
   }"

definition ofc_waitset_destroy_impl :: "env \<Rightarrow> ptr \<Rightarrow> world \<Rightarrow> world option" where
  "ofc_waitset_destroy_impl E pWaitSet w = do {
     ws \<leftarrow> ws_mem w pWaitSet;
     aws \<leftarrow> aws_mem w (ws_impl ws);
     let w = call_void E (Sys (SysClose (pipe_read aws))) w;
     let w = call_void E (Sys (SysClose (pipe_write aws))) w;
     let w = call_void E (Pkg (Free (ws_impl ws))) w;
     let w = w\<lparr>aws_mem := (aws_mem w)(ws_impl ws := None)\<rparr>;
     Some (w\<lparr>ws_mem := (ws_mem w)(pWaitSet \<mapsto> ws\<lparr>ws_impl := OFC_NULL\<rparr>)\<rparr>)
   }"

text \<open>The result of \<open>write\<close> is ignored: a full pipe drops the signal.\<close>

definition ofc_waitset_signal_impl :: "env \<Rightarrow> handle \<Rightarrow> handle \<Rightarrow> world \<Rightarrow> world option" where
  "ofc_waitset_signal_impl E h hEvent w =
     (let (p, w) = ofc_handle_lock E h w in
      if p \<noteq> OFC_NULL then do {
        ws \<leftarrow> ws_mem w p;
        aws \<leftarrow> aws_mem w (ws_impl ws);
        let w = call_void E (Sys (SysWrite (pipe_write aws) hEvent)) w;
        Some (ofc_handle_unlock E h w)
      } else Some w)"

definition ofc_waitset_wake_impl :: "env \<Rightarrow> handle \<Rightarrow> world \<Rightarrow> world option" where
  "ofc_waitset_wake_impl E h w = ofc_waitset_signal_impl E h OFC_HANDLE_NULL w"

section \<open>What was written to a pipe\<close>

text \<open>The handles written to a descriptor, oldest first.\<close>

fun written :: "history \<Rightarrow> int \<Rightarrow> handle list" where
  "written [] d = []"
| "written ((Sys (SysWrite d' h), r) # cs) d = (if d' = d then written cs d @ [h] else written cs d)"
| "written (_ # cs) d = written cs d"

text \<open>A live wait set: handle, structure, platform part.\<close>

definition waitset_at :: "env \<Rightarrow> handle \<Rightarrow> ptr \<Rightarrow> wait_set \<Rightarrow> android_wait_set \<Rightarrow> world \<Rightarrow> bool" where
  "waitset_at E h p ws aws w \<longleftrightarrow> locks_to E h p \<and> \<not> dead (calls w) h \<and>
     ws_mem w p = Some ws \<and> aws_mem w (ws_impl ws) = Some aws"

lemma waitset_atD:
  assumes "waitset_at E h p ws aws w"
  shows "p \<noteq> OFC_NULL" and "\<not> dead (calls w) h" and "ws_mem w p = Some ws"
    and "aws_mem w (ws_impl ws) = Some aws"
  using assms locks_to_nonnull by (auto simp: waitset_at_def)

lemma waitset_at_lock:
  "waitset_at E h p ws aws w \<Longrightarrow>
   ofc_handle_lock E h w = (p, logged (Pkg (HandleLock h)) (respond E (calls w) (Pkg (HandleLock h))) w)"
  by (simp add: waitset_at_def lock_live)

section \<open>What signalling does\<close>

lemma signal_returns:
  "returns (ofc_waitset_signal_impl E h hEvent w) (\<lambda>w'. same_mem w w' \<and> same_locks w w' \<and> same_blocks w w' \<and>
     (\<forall>g. dead (calls w') g = dead (calls w) g))"
  by (auto simp: ofc_waitset_signal_impl_def Let_def wp same_locks_def same_blocks_def split: call_splits)

lemma signal_live:
  assumes "waitset_at E h p ws aws w"
  shows "yields (ofc_waitset_signal_impl E h hEvent w) (\<lambda>w'.
     same_mem w w' \<and> same_locks w w' \<and> same_blocks w w' \<and> (\<forall>g. dead (calls w') g = dead (calls w) g) \<and>
     (\<forall>d. written (calls w') d = written (calls w) d @ (if d = pipe_write aws then [hEvent] else [])) \<and>
     waitset_at E h p ws aws w')"
  using assms waitset_atD [OF assms] waitset_at_lock [OF assms]
    locks_to_nonnull [of E h p]
  by (auto simp: ofc_waitset_signal_impl_def Let_def wp same_locks_def same_blocks_def waitset_at_def
      locks_to_def split: call_splits)

theorem wake_writes_null:
  assumes "waitset_at E h p ws aws w"
  shows "yields (ofc_waitset_wake_impl E h w) (\<lambda>w'.
     written (calls w') (pipe_write aws) = written (calls w) (pipe_write aws) @ [OFC_HANDLE_NULL] \<and>
     same_mem w w' \<and> same_locks w w')"
  using signal_live [OF assms, of OFC_HANDLE_NULL] by (auto simp: ofc_waitset_wake_impl_def elim!: yields_mono)

lemma set_nonblock_calls:
  "\<exists>cs. set_nonblock E d w = w\<lparr>calls := cs\<rparr> \<and>
     (\<forall>h. held cs h = held (calls w) h) \<and> (\<forall>q. blocks cs q = blocks (calls w) q)"
proof -
  obtain r r' where "set_nonblock E d w =
      w\<lparr>calls := (Sys (SysSetFl d (word_of_int (r_ret r) OR O_NONBLOCK)), r') # (Sys (SysGetFl d), r) # calls w\<rparr>"
    by (simp add: set_nonblock_def call_ret_def call_void_def call_def Let_def)
  then show ?thesis
    by (intro exI [of _ "(Sys (SysSetFl d (word_of_int (r_ret r) OR O_NONBLOCK)), r') #
          (Sys (SysGetFl d), r) # calls w"]) simp
qed

text \<open>
  Creating a wait set's pipe and destroying it again frees what was allocated; a second
  destruction follows the null pointer.
\<close>

theorem waitset_create_destroy:
  assumes ws: "ws_mem w q = Some ws" "aws_mem w OFC_NULL = None"
    and m: "\<And>hist. respond E hist (Pkg Malloc) = m" "r_addr m \<noteq> OFC_NULL"
    and p: "\<And>hist. respond E hist (Sys SysPipe) = r"
  shows "yields (do { w \<leftarrow> ofc_waitset_create_impl E q w; ofc_waitset_destroy_impl E q w })
    (\<lambda>w'. ws_mem w' = (ws_mem w)(q \<mapsto> ws\<lparr>ws_impl := OFC_NULL\<rparr>) \<and>
       aws_mem w' = (aws_mem w)(r_addr m := None) \<and> same_blocks w w' \<and> same_locks w w' \<and>
       ofc_waitset_destroy_impl E q w' = None \<and>
       (\<forall>d. Sys (SysClose d) \<in> fst ` set (take 3 (calls w')) \<longleftrightarrow> d \<in> {fst (r_pair r), snd (r_pair r)}))"
proof -
  let ?p = "r_addr m" and ?aws = "\<lparr>pipe_read = fst (r_pair r), pipe_write = snd (r_pair r)\<rparr>"
  let ?w1 = "w\<lparr>ws_mem := (ws_mem w)(q \<mapsto> ws\<lparr>ws_impl := ?p\<rparr>),
      calls := (Sys SysPipe, r) # (Pkg Malloc, m) # calls w, aws_mem := (aws_mem w)(?p \<mapsto> ?aws)\<rparr>"
  obtain cs1 where 1: "set_nonblock E (fst (r_pair r)) ?w1 = ?w1\<lparr>calls := cs1\<rparr>"
    "\<forall>h. held cs1 h = held (calls ?w1) h" "\<forall>q. blocks cs1 q = blocks (calls ?w1) q"
    using set_nonblock_calls [of E "fst (r_pair r)" ?w1] by (elim exE conjE)
  obtain cs2 where 2: "set_nonblock E (snd (r_pair r)) (?w1\<lparr>calls := cs1\<rparr>) = ?w1\<lparr>calls := cs2\<rparr>"
    "\<forall>h. held cs2 h = held cs1 h" "\<forall>q. blocks cs2 q = blocks cs1 q"
    using set_nonblock_calls [of E "snd (r_pair r)" "?w1\<lparr>calls := cs1\<rparr>"] by auto
  have create: "ofc_waitset_create_impl E q w = Some (?w1\<lparr>calls := cs2\<rparr>)"
    using ws(1) m(2) 1(1) 2(1)
    by (simp add: ofc_waitset_create_impl_def call_known [OF m(1)] call_known [OF p] Let_def)
  show ?thesis
    using ws m(2)
    by (simp add: create ofc_waitset_destroy_impl_def Let_def wp call_void_def call_def same_blocks_def
        same_locks_def 1(2,3) 2(2,3)) blast
qed

end
