(* ===== verification/OFC_Event.thy ===== *)
theory OFC_Event
  imports OFC_WaitPipe
begin

text \<open>
  The events of src/src/event\_android.c: a flag behind a mutex and a condition variable, and the
  tie to the wait set whose pipe is written when an event is set. Every access to the flag is a
  critical section; \<open>pthread_cond_wait\<close> is the one place where a critical section is left and
  entered again. The lemmas show that each operation is a function of the flag, that mutexes
  and handles are left as they were found, that setting wakes the wait set, and, for any
  number of threads that execute these functions, that no wake-up is lost.
\<close>

section \<open>Operations\<close>

definition ofc_event_create_impl :: "env \<Rightarrow> event_type \<Rightarrow> world \<Rightarrow> handle result" where
  "ofc_event_create_impl E ty w =
     (let (p, w) = call_addr E (Pkg Malloc) w in
      if p \<noteq> OFC_NULL then
        let w = w\<lparr>ev_mem := (ev_mem w)(p \<mapsto> \<lparr>eventType = ty, signalled = False\<rparr>)\<rparr>;
            w = call_void E (Pthread (MutexattrInit p)) w;
            w = call_void E (Pthread (MutexattrErrorcheck p)) w;
            w = call_void E (Pthread (CondInit p)) w;
            w = call_void E (Pthread (MutexInit p)) w
        in Some (call_addr E (Pkg (HandleCreate OFC_HANDLE_EVENT p)) w)
      else Some (OFC_HANDLE_NULL, w))"

definition ofc_event_set_impl :: "env \<Rightarrow> handle \<Rightarrow> world \<Rightarrow> world option" where
  "ofc_event_set_impl E hEvent w =
     (let (p, w) = ofc_handle_lock E hEvent w in
      if p \<noteq> OFC_NULL then do {
        let w = call_void E (Pthread (MutexLock p)) w;
        e \<leftarrow> ev_mem w p;
        let w = w\<lparr>ev_mem := (ev_mem w)(p \<mapsto> e\<lparr>signalled := True\<rparr>)\<rparr>;
        let w = call_void E (Pthread (CondBroadcast p)) w;
        let (hWaitSet, w) = call_addr E (Pkg (HandleGetWaitSet hEvent)) w;
        w \<leftarrow> (if hWaitSet \<noteq> OFC_HANDLE_NULL then ofc_waitset_signal_impl E hWaitSet hEvent w
               else Some w);
        let w = call_void E (Pthread (MutexUnlock p)) w;
        Some (ofc_handle_unlock E hEvent w)
      } else Some w)"

definition ofc_event_reset_impl :: "env \<Rightarrow> handle \<Rightarrow> world \<Rightarrow> world option" where
  "ofc_event_reset_impl E hEvent w =
     (let (p, w) = ofc_handle_lock E hEvent w in
      if p \<noteq> OFC_NULL then do {
        let w = call_void E (Pthread (MutexLock p)) w;
        e \<leftarrow> ev_mem w p;
        let w = w\<lparr>ev_mem := (ev_mem w)(p \<mapsto> e\<lparr>signalled := False\<rparr>)\<rparr>;
        let w = call_void E (Pthread (MutexUnlock p)) w;
        Some (ofc_handle_unlock E hEvent w)
      } else Some w)"

definition ofc_event_get_type_impl :: "env \<Rightarrow> handle \<Rightarrow> world \<Rightarrow> event_type result" where
  "ofc_event_get_type_impl E hEvent w =
     (let (p, w) = ofc_handle_lock E hEvent w in
      if p \<noteq> OFC_NULL then do {
        e \<leftarrow> ev_mem w p;
        Some (eventType e, ofc_handle_unlock E hEvent w)
      } else Some (OFC_EVENT_AUTO, w))"

definition ofc_event_destroy_impl :: "env \<Rightarrow> handle \<Rightarrow> world \<Rightarrow> world option" where
  "ofc_event_destroy_impl E hEvent w =
     (let (p, w) = ofc_handle_lock E hEvent w in
      if p \<noteq> OFC_NULL then
        let w = call_void E (Pthread (CondDestroy p)) w;
            w = call_void E (Pthread (MutexDestroy p)) w;
            w = call_void E (Pthread (MutexattrDestroy p)) w;
            w = call_void E (Pkg (Free p)) w;
            w = w\<lparr>ev_mem := (ev_mem w)(p := None)\<rparr>;
            w = call_void E (Pkg (HandleDestroy hEvent)) w
        in Some (ofc_handle_unlock E hEvent w)
      else Some w)"

text \<open>
  While a thread waits, the mutex is free: the argument \<open>others\<close> is what the other threads
  make of the events until \<open>pthread_cond_wait\<close> returns with the mutex locked again.
\<close>

type_synonym interference = "(ptr \<rightharpoonup> android_event) \<Rightarrow> (ptr \<rightharpoonup> android_event)"

text \<open>
  A wait is two critical sections: up to \<open>pthread_cond_wait\<close>, if it comes to that, and from there to
  the end. The first returns the event's address and whether the thread went to sleep.
\<close>

definition event_wait_enter :: "env \<Rightarrow> handle \<Rightarrow> world \<Rightarrow> (ptr \<times> bool) result" where
  "event_wait_enter E hEvent w =
     (let (p, w) = ofc_handle_lock E hEvent w in
      if p \<noteq> OFC_NULL then do {
        let w = call_void E (Pthread (MutexLock p)) w;
        e \<leftarrow> ev_mem w p;
        Some (if \<not> signalled e then ((p, True), call_void E (Pthread (CondWait p)) w) else ((p, False), w))
      } else Some ((p, False), w))"

definition event_wait_leave :: "env \<Rightarrow> handle \<Rightarrow> ptr \<Rightarrow> world \<Rightarrow> world option" where
  "event_wait_leave E hEvent p w =
     (if p \<noteq> OFC_NULL then do {
        e \<leftarrow> ev_mem w p;
        let w = (if eventType e = OFC_EVENT_AUTO
                 then w\<lparr>ev_mem := (ev_mem w)(p \<mapsto> e\<lparr>signalled := False\<rparr>)\<rparr>
                 else w);
        let w = call_void E (Pthread (MutexUnlock p)) w;
        Some (ofc_handle_unlock E hEvent w)
      } else Some w)"

definition ofc_event_wait_impl :: "env \<Rightarrow> interference \<Rightarrow> handle \<Rightarrow> world \<Rightarrow> world option" where
  "ofc_event_wait_impl E others hEvent w = do {
     ((p, asleep), w) \<leftarrow> event_wait_enter E hEvent w;
     event_wait_leave E hEvent p (if asleep then w\<lparr>ev_mem := others (ev_mem w)\<rparr> else w)
   }"

lemmas event_wait_defs = ofc_event_wait_impl_def event_wait_enter_def event_wait_leave_def

text \<open>A handle that does not lock is reported as signalled.\<close>

definition ofc_event_test_impl :: "env \<Rightarrow> handle \<Rightarrow> world \<Rightarrow> bool result" where
  "ofc_event_test_impl E hEvent w =
     (let (p, w) = ofc_handle_lock E hEvent w in
      if p \<noteq> OFC_NULL then do {
        let w = call_void E (Pthread (MutexLock p)) w;
        e \<leftarrow> ev_mem w p;
        let w = call_void E (Pthread (MutexUnlock p)) w;
        Some (signalled e, ofc_handle_unlock E hEvent w)
      } else Some (True, w))"

text \<open>In a sequence of operations of one thread, the others only touch the events it knows.\<close>

datatype event_op =
    EventCreate event_type
  | EventSet handle
  | EventReset handle
  | EventGetType handle
  | EventDestroy handle
  | EventWait handle interference
  | EventTest handle

fun event_step :: "env \<Rightarrow> event_op \<Rightarrow> world \<Rightarrow> world option" where
  "event_step E (EventCreate ty) w = map_option snd (ofc_event_create_impl E ty w)"
| "event_step E (EventSet h) w = ofc_event_set_impl E h w"
| "event_step E (EventReset h) w = ofc_event_reset_impl E h w"
| "event_step E (EventGetType h) w = map_option snd (ofc_event_get_type_impl E h w)"
| "event_step E (EventDestroy h) w = ofc_event_destroy_impl E h w"
| "event_step E (EventWait h others) w =
     ofc_event_wait_impl E (\<lambda>m. others m |` dom m) h w"
| "event_step E (EventTest h) w = map_option snd (ofc_event_test_impl E h w)"

lemmas event_defs =
  ofc_event_create_impl_def ofc_event_set_impl_def ofc_event_reset_impl_def
  ofc_event_get_type_impl_def ofc_event_destroy_impl_def event_wait_defs
  ofc_event_test_impl_def ofc_waitset_signal_impl_def

section \<open>Locks, mutexes and memory\<close>

text \<open>How often a mutex is locked; \<open>pthread_cond_wait\<close> leaves it as it found it.\<close>

fun mutex_held :: "history \<Rightarrow> ptr \<Rightarrow> int" where
  "mutex_held [] p = 0"
| "mutex_held ((Pthread (MutexLock q), r) # cs) p = (if q = p then mutex_held cs p + 1 else mutex_held cs p)"
| "mutex_held ((Pthread (MutexUnlock q), r) # cs) p = (if q = p then mutex_held cs p - 1 else mutex_held cs p)"
| "mutex_held (_ # cs) p = mutex_held cs p"

text \<open>A mutex is only destroyed or its block freed while nobody of this thread holds it.\<close>

lemma event_step_mutex: "returns (event_step E op w) (\<lambda>w'. mutex_held (calls w') p = mutex_held (calls w) p)"
  by (cases op) (auto simp: event_defs Let_def wp split: call_splits)

lemma event_step_locks: "returns (event_step E op w) (same_locks w)"
  by (cases op) (auto simp: event_defs same_locks_def Let_def wp split: call_splits)

interpretation event: lock_discipline "event_step E"
  by unfold_locales (rule event_step_locks)

lemma event_wait_owned:
  "owned ev_mem w \<Longrightarrow> returns (event_wait_enter E h w) (\<lambda>(x, w'). owned ev_mem w')"
  "owned ev_mem w \<Longrightarrow> returns (event_wait_leave E h p w) (owned ev_mem)"
  by (auto simp: event_wait_defs owned_def Let_def wp split: call_splits)

lemma interference_owned: "owned ev_mem w \<Longrightarrow> owned ev_mem (w\<lparr>ev_mem := others (ev_mem w) |` dom (ev_mem w)\<rparr>)"
  by (auto simp: owned_def restrict_map_def)

lemma event_step_owned:
  assumes "fresh_alloc E" and "owned ev_mem w"
  shows "returns (event_step E op w) (owned ev_mem)"
proof (cases "\<exists>h others. op = EventWait h others")
  case True
  then obtain h others where op: "op = EventWait h others" by blast
  show ?thesis
    unfolding op event_step.simps ofc_event_wait_impl_def returns_bind
    by (rule returns_mono [OF event_wait_owned(1) [OF assms(2)]])
       (auto intro!: event_wait_owned(2) interference_owned)
next
  case False
  then show ?thesis
    using assms(2)
    by (cases op) (auto simp: event_defs owned_def Let_def wp restrict_map_def
        dest: fresh_allocD [OF assms(1)] split: call_splits if_splits)
qed

interpretation event: structure_owner "event_step E" ev_mem E
  by unfold_locales (rule event_step_owned)

section \<open>A live event\<close>

definition event_at :: "env \<Rightarrow> handle \<Rightarrow> ptr \<Rightarrow> android_event \<Rightarrow> world \<Rightarrow> bool" where
  "event_at E h p e w \<longleftrightarrow> locks_to E h p \<and> \<not> dead (calls w) h \<and> ev_mem w p = Some e"

lemma event_atD:
  assumes "event_at E h p e w"
  shows "p \<noteq> OFC_NULL" and "\<not> dead (calls w) h" and "ev_mem w p = Some e"
    and "r_addr (respond E (calls w) (Pkg (HandleLock h))) = p"
  using assms by (auto simp: event_at_def locks_to_def)

lemma event_at_lock:
  "event_at E h p e w \<Longrightarrow>
   ofc_handle_lock E h w = (p, logged (Pkg (HandleLock h)) (respond E (calls w) (Pkg (HandleLock h))) w)"
  by (simp add: event_at_def lock_live)

text \<open>The wait set an event belongs to, if any, is live whenever the handle package is asked.\<close>

definition sinks_live :: "env \<Rightarrow> world \<Rightarrow> bool" where
  "sinks_live E w \<longleftrightarrow> (\<forall>h hist. r_addr (respond E hist (Pkg (HandleGetWaitSet h))) = OFC_HANDLE_NULL \<or>
     (\<exists>p ws aws. waitset_at E (r_addr (respond E hist (Pkg (HandleGetWaitSet h)))) p ws aws w))"

text \<open>What an operation on one event leaves alone: everything but that event and the history.\<close>

definition event_frame :: "ptr \<Rightarrow> android_event \<Rightarrow> world \<Rightarrow> world \<Rightarrow> bool" where
  "event_frame p e w w' \<longleftrightarrow> same_mem (w\<lparr>ev_mem := (ev_mem w)(p \<mapsto> e)\<rparr>) w' \<and>
     same_locks w w' \<and> same_blocks w w' \<and> (\<forall>g. dead (calls w') g = dead (calls w) g)"

lemma event_frameD:
  assumes "event_frame p e w w'"
  shows "ev_mem w' = (ev_mem w)(p \<mapsto> e)" "dead (calls w') g = dead (calls w) g"
    "ws_mem w' = ws_mem w" "aws_mem w' = aws_mem w"
  using assms same_memD [of "w\<lparr>ev_mem := (ev_mem w)(p \<mapsto> e)\<rparr>" w'] by (simp_all add: event_frame_def)

lemma event_frame_at:
  "event_frame p e w w' \<Longrightarrow> event_at E h p e0 w \<Longrightarrow> event_at E h p e w'"
  "event_frame p e w w' \<Longrightarrow> event_at E g q e1 w \<Longrightarrow> q \<noteq> p \<Longrightarrow> event_at E g q e1 w'"
  by (simp_all add: event_at_def event_frameD)

lemma event_frame_sinks: "event_frame p e w w' \<Longrightarrow> sinks_live E w \<Longrightarrow> sinks_live E w'"
  by (simp add: sinks_live_def waitset_at_def event_frameD)

lemma event_reset_live:
  assumes "event_at E h p e w"
  shows "yields (ofc_event_reset_impl E h w) (event_frame p (e\<lparr>signalled := False\<rparr>) w)"
  using event_atD [OF assms] event_at_lock [OF assms]
  by (auto simp: ofc_event_reset_impl_def Let_def wp event_frame_def same_locks_def same_blocks_def
      split: call_splits)

lemma event_get_type_live:
  assumes "event_at E h p e w"
  shows "yields (ofc_event_get_type_impl E h w) (\<lambda>(ty, w'). ty = eventType e \<and> event_frame p e w w')"
  using event_atD [OF assms] event_at_lock [OF assms]
  by (auto simp: ofc_event_get_type_impl_def Let_def wp event_frame_def same_locks_def same_blocks_def
      fun_upd_idem split: call_splits)

lemma event_test_live:
  assumes "event_at E h p e w"
  shows "yields (ofc_event_test_impl E h w) (\<lambda>(b, w'). b = signalled e \<and> event_frame p e w w')"
  using event_atD [OF assms] event_at_lock [OF assms]
  by (auto simp: ofc_event_test_impl_def Let_def wp event_frame_def same_locks_def same_blocks_def
      fun_upd_idem split: call_splits)

lemma signal_sink:
  assumes "sinks_live E w" and "answers E (Pkg (HandleGetWaitSet h)) w0 r" and "r_addr r \<noteq> OFC_HANDLE_NULL"
    and "ws_mem w1 = ws_mem w" and "aws_mem w1 = aws_mem w" and "\<And>g. dead (calls w1) g = dead (calls w) g"
    and Q: "\<And>w2. same_mem w1 w2 \<Longrightarrow> same_locks w1 w2 \<Longrightarrow> same_blocks w1 w2 \<Longrightarrow>
      \<forall>g. dead (calls w2) g = dead (calls w1) g \<Longrightarrow> Q w2"
  shows "yields (ofc_waitset_signal_impl E (r_addr r) h w1) Q"
proof -
  obtain q ws aws where "waitset_at E (r_addr r) q ws aws w"
    using assms(1-3) unfolding sinks_live_def answers_def by blast
  then have "waitset_at E (r_addr r) q ws aws w1"
    using assms(4-6) by (simp add: waitset_at_def)
  from signal_live [OF this] show ?thesis by (rule yields_mono) (blast intro: Q)
qed

lemma event_set_live:
  assumes at: "event_at E h p e w" and sinks: "sinks_live E w"
  shows "yields (ofc_event_set_impl E h w) (event_frame p (e\<lparr>signalled := True\<rparr>) w)"
  using event_atD [OF at] event_at_lock [OF at]
  apply (simp add: ofc_event_set_impl_def Let_def wp split: call_splits)
  apply (intro conjI impI allI)
   apply (rule signal_sink [OF sinks])
        apply assumption
       apply assumption
      apply (simp_all add: event_frame_def same_locks_def same_blocks_def)
  done

lemma event_frame_trans: "event_frame p e w w' \<Longrightarrow> event_frame p e' w' w'' \<Longrightarrow> event_frame p e' w w''"
proof -
  assume 1: "event_frame p e w w'" and 2: "event_frame p e' w' w''"
  have "same_mem (w\<lparr>ev_mem := (ev_mem w)(p \<mapsto> e')\<rparr>) (w'\<lparr>ev_mem := (ev_mem w')(p \<mapsto> e')\<rparr>)"
    using 1 by (cases w; cases w') (auto simp: event_frame_def same_mem_def)
  with 1 2 show "event_frame p e' w w''"
    by (auto simp: event_frame_def same_locks_def same_blocks_def intro: same_mem_trans)
qed

section \<open>Waiting\<close>

text \<open>
  The two critical sections of a wait: the first consumes a signalled event or blocks, the
  second consumes it when the condition variable has been signalled.
\<close>

definition leave_wait :: "android_event \<Rightarrow> android_event" where
  "leave_wait e = (if eventType e = OFC_EVENT_AUTO then e\<lparr>signalled := False\<rparr> else e)"

definition enter_wait :: "android_event \<Rightarrow> android_event option" where
  "enter_wait e = (if signalled e then Some (leave_wait e) else None)"

lemma event_wait_live:
  assumes "event_at E h p e w" and "enter_wait e = Some e'"
  shows "yields (ofc_event_wait_impl E others h w) (event_frame p e' w)"
  using assms(2) event_atD [OF assms(1)] event_at_lock [OF assms(1)]
  by (auto simp: event_wait_defs enter_wait_def leave_wait_def Let_def wp event_frame_def
      same_locks_def same_blocks_def fun_upd_idem split: call_splits if_splits)

lemma wait_blocked:
  assumes "event_at E h p e w" and "enter_wait e = None" and "others (ev_mem w) p = Some e'"
  shows "yields (ofc_event_wait_impl E others h w) (\<lambda>w'.
    ev_mem w' = (others (ev_mem w))(p \<mapsto> leave_wait e') \<and> same_locks w w' \<and> same_blocks w w' \<and>
    (\<forall>g. dead (calls w') g = dead (calls w) g) \<and> Pthread (CondWait p) \<in> fst ` set (calls w'))"
  using assms(2,3) event_atD [OF assms(1)] event_at_lock [OF assms(1)]
  by (auto simp: event_wait_defs enter_wait_def leave_wait_def Let_def wp
      same_locks_def same_blocks_def fun_upd_idem split: call_splits if_splits)

section \<open>Refinement of abstract events\<close>

text \<open>
  What the operations promise: a map from handles to a type and a flag. Setting, resetting and
  testing are what they say; a wait is enabled when the flag is set, and takes it back on an
  automatic event. Destroying an event takes it out of the map. A wait that would block and the
  use of an event that is not in the map are not steps; neither is creating one, whose handle is
  the choice of the handle package.
\<close>

type_synonym spec_events = "handle \<rightharpoonup> event_type \<times> bool"

fun spec_step :: "event_op \<Rightarrow> spec_events \<Rightarrow> spec_events option" where
  "spec_step (EventSet h) M = map_option (\<lambda>(ty, b). M(h \<mapsto> (ty, True))) (M h)"
| "spec_step (EventReset h) M = map_option (\<lambda>(ty, b). M(h \<mapsto> (ty, False))) (M h)"
| "spec_step (EventGetType h) M = map_option (\<lambda>_. M) (M h)"
| "spec_step (EventTest h) M = map_option (\<lambda>_. M) (M h)"
| "spec_step (EventWait h others) M =
     (case M h of Some (ty, True) \<Rightarrow> Some (M(h \<mapsto> (ty, ty = OFC_EVENT_MANUAL))) | _ \<Rightarrow> None)"
| "spec_step (EventDestroy h) M = map_option (\<lambda>_. M(h := None)) (M h)"
| "spec_step (EventCreate ty) M = None"

primrec spec_run :: "event_op list \<Rightarrow> spec_events \<Rightarrow> spec_events option" where
  "spec_run [] M = Some M"
| "spec_run (op # ops) M = do { M \<leftarrow> spec_step op M; spec_run ops M }"

text \<open>
  Every abstract event is a live structure of its own, with that type and flag, and its handle is
  not that of a wait set.
\<close>

definition implements :: "env \<Rightarrow> (handle \<Rightarrow> ptr) \<Rightarrow> spec_events \<Rightarrow> world \<Rightarrow> bool" where
  "implements E P M w \<longleftrightarrow> inj_on P (dom M) \<and> sinks_live E w \<and>
     (\<forall>h\<in>dom M. \<forall>g hist. r_addr (respond E hist (Pkg (HandleGetWaitSet g))) \<noteq> h) \<and>
     (\<forall>h ty b. M h = Some (ty, b) \<longrightarrow> event_at E h (P h) \<lparr>eventType = ty, signalled = b\<rparr> w)"

lemma implementsD: "implements E P M w \<Longrightarrow> M h = Some (ty, b) \<Longrightarrow>
    event_at E h (P h) \<lparr>eventType = ty, signalled = b\<rparr> w"
  by (simp add: implements_def)

lemma implements_frame:
  assumes im: "implements E P M w" and h: "M h = Some (ty, b)"
    and fr: "event_frame (P h) \<lparr>eventType = ty, signalled = b'\<rparr> w w'"
  shows "implements E P (M(h \<mapsto> (ty, b'))) w'"
proof -
  have "event_at E g (P g) \<lparr>eventType = ty1, signalled = b1\<rparr> w'"
    if g: "(M(h \<mapsto> (ty, b'))) g = Some (ty1, b1)" for g ty1 b1
  proof (cases "g = h")
    case True
    then show ?thesis using g event_frame_at(1) [OF fr implementsD [OF im h]] by simp
  next
    case False
    then have Mg: "M g = Some (ty1, b1)" using g by simp
    then have "P g \<noteq> P h"
      using im h False by (auto simp: implements_def inj_on_def)
    then show ?thesis using event_frame_at(2) [OF fr implementsD [OF im Mg]] by simp
  qed
  moreover have "dom (M(h \<mapsto> (ty, b'))) = dom M" using h by auto
  ultimately show ?thesis
    using im event_frame_sinks [OF fr] by (simp add: implements_def)
qed

lemma implements_same:
  assumes "implements E P M w" and "M h = Some (ty, b)"
    and "event_frame (P h) \<lparr>eventType = ty, signalled = b\<rparr> w w'"
  shows "implements E P M w'"
  using implements_frame [OF assms] assms(2) by (simp add: fun_upd_idem)

lemma event_destroy_live:
  assumes "event_at E h p e w"
  shows "yields (ofc_event_destroy_impl E h w) (\<lambda>w'. ev_mem w' = (ev_mem w)(p := None) \<and>
    ws_mem w' = ws_mem w \<and> aws_mem w' = aws_mem w \<and> dead (calls w') h \<and>
    (\<forall>g. g \<noteq> h \<longrightarrow> dead (calls w') g = dead (calls w) g))"
  using event_atD [OF assms] event_at_lock [OF assms]
  by (auto simp: ofc_event_destroy_impl_def Let_def wp split: call_splits)

lemma implements_destroyed:
  assumes im: "implements E P M w" and h: "M h = Some (ty, b)"
    and w': "ev_mem w' = (ev_mem w)(P h := None)" "ws_mem w' = ws_mem w" "aws_mem w' = aws_mem w"
      "\<forall>g. g \<noteq> h \<longrightarrow> dead (calls w') g = dead (calls w) g"
  shows "implements E P (M(h := None)) w'"
proof -
  have set: "r_addr (respond E hist (Pkg (HandleGetWaitSet g))) \<noteq> h" for g hist
    using im h by (auto simp: implements_def)
  have "sinks_live E w" using im by (simp add: implements_def)
  then have "sinks_live E w'"
    using set w' by (auto simp: sinks_live_def waitset_at_def)
  moreover have "event_at E g (P g) \<lparr>eventType = ty1, signalled = b1\<rparr> w'" if g: "g \<noteq> h" "M g = Some (ty1, b1)" for g ty1 b1
  proof -
    have "P g \<noteq> P h" using im h g by (auto simp: implements_def inj_on_def)
    with implementsD [OF im g(2)] w' g(1) show ?thesis by (simp add: event_at_def)
  qed
  moreover have "inj_on P (dom M - {h})" using im by (auto simp: implements_def intro: inj_on_subset)
  ultimately show ?thesis using im by (auto simp: implements_def)
qed

text \<open>
  What the table leaves out: memory that is not of one of its events stays as it was, and an event
  that has been taken out of the table is destroyed, its handle and its structure.
\<close>

definition forgets :: "(handle \<Rightarrow> ptr) \<Rightarrow> spec_events \<Rightarrow> spec_events \<Rightarrow> world \<Rightarrow> world \<Rightarrow> bool" where
  "forgets P M M' w w' \<longleftrightarrow> dom M' \<subseteq> dom M \<and> (\<forall>q. q \<notin> P ` dom M \<longrightarrow> ev_mem w' q = ev_mem w q) \<and>
     (\<forall>g. dead (calls w) g \<longrightarrow> dead (calls w') g) \<and>
     (\<forall>g\<in>dom M - dom M'. dead (calls w') g \<and> ev_mem w' (P g) = None)"

lemma forgets_refl: "forgets P M M w w"
  by (simp add: forgets_def)

lemma forgets_frame:
  assumes "M h = Some x" and "event_frame (P h) e w w'"
  shows "forgets P M (M(h \<mapsto> y)) w w'" and "forgets P M M w w'"
proof -
  have h: "h \<in> dom M" using assms(1) by blast
  then have "dom (M(h \<mapsto> y)) = dom M" by auto
  with h event_frameD [OF assms(2)] show "forgets P M (M(h \<mapsto> y)) w w'" "forgets P M M w w'"
    by (auto simp: forgets_def)
qed

lemma forgets_trans:
  assumes 1: "forgets P M M1 w w1" and 2: "forgets P M1 M2 w1 w2" and inj: "inj_on P (dom M)"
  shows "forgets P M M2 w w2"
proof -
  have "ev_mem w2 (P g) = ev_mem w1 (P g)" if g: "g \<in> dom M" "g \<notin> dom M1" for g
  proof -
    have "dom M1 \<subseteq> dom M" using 1 by (simp add: forgets_def)
    with g inj have "P g \<notin> P ` dom M1" by (simp add: inj_on_image_mem_iff)
    then show ?thesis using 2 by (simp add: forgets_def)
  qed
  then have "dead (calls w2) g \<and> ev_mem w2 (P g) = None" if "g \<in> dom M - dom M2" for g
    using 1 2 that by (cases "g \<in> dom M1") (auto simp: forgets_def)
  moreover have "ev_mem w2 q = ev_mem w q" if "q \<notin> P ` dom M" for q
  proof -
    have "P ` dom M1 \<subseteq> P ` dom M" using 1 by (intro image_mono) (simp add: forgets_def)
    then have "q \<notin> P ` dom M1" using that by blast
    then show ?thesis using 1 2 that by (simp add: forgets_def)
  qed
  ultimately show ?thesis using 1 2 unfolding forgets_def by blast
qed

lemma spec_step_refines:
  assumes im: "implements E P M w" and sp: "spec_step op M = Some M'"
  shows "yields (event_step E op w) (\<lambda>w'. implements E P M' w' \<and> forgets P M M' w w')"
proof (cases op)
  case (EventSet h)
  then obtain ty b where h: "M h = Some (ty, b)" "M' = M(h \<mapsto> (ty, True))" using sp by auto
  have "sinks_live E w" using im by (simp add: implements_def)
  from event_set_live [OF implementsD [OF im h(1)] this] show ?thesis
    unfolding EventSet event_step.simps h(2)
    by (rule yields_mono) (intro conjI implements_frame [OF im h(1)] forgets_frame(1) [where M = M and h = h, OF h(1)], simp_all)
next
  case (EventReset h)
  then obtain ty b where h: "M h = Some (ty, b)" "M' = M(h \<mapsto> (ty, False))" using sp by auto
  from event_reset_live [OF implementsD [OF im h(1)]] show ?thesis
    unfolding EventReset event_step.simps h(2)
    by (rule yields_mono) (intro conjI implements_frame [OF im h(1)] forgets_frame(1) [where M = M and h = h, OF h(1)], simp_all)
next
  case (EventWait h others)
  then obtain ty where h: "M h = Some (ty, True)" "M' = M(h \<mapsto> (ty, ty = OFC_EVENT_MANUAL))"
    using sp by (auto split: option.splits bool.splits)
  have "enter_wait \<lparr>eventType = ty, signalled = True\<rparr> =
      Some \<lparr>eventType = ty, signalled = (ty = OFC_EVENT_MANUAL)\<rparr>"
    by (cases ty) (simp_all add: enter_wait_def leave_wait_def)
  from event_wait_live [OF implementsD [OF im h(1)] this] show ?thesis
    unfolding EventWait event_step.simps h(2)
    by (rule yields_mono) (intro conjI implements_frame [OF im h(1)] forgets_frame(1) [where M = M and h = h, OF h(1)], simp_all)
next
  case (EventDestroy h)
  then obtain ty b where h: "M h = Some (ty, b)" "M' = M(h := None)" using sp by auto
  show ?thesis
    unfolding EventDestroy event_step.simps h(2)
  proof (rule yields_mono [OF event_destroy_live [OF implementsD [OF im h(1)]]], intro conjI, goal_cases)
    case (1 w')
    then show ?case by (blast intro: implements_destroyed [OF im h(1)])
  next
    case (2 w')
    then show ?case using h(1) by (auto simp: forgets_def)
  qed
next
  case (EventGetType h)
  then obtain ty b where h: "M h = Some (ty, b)" "M' = M" using sp by (cases "M h") (simp, force)
  from event_get_type_live [OF implementsD [OF im h(1)]] obtain v w' where
    eq: "ofc_event_get_type_impl E h w = Some (v, w')" and fr: "event_frame (P h) \<lparr>eventType = ty, signalled = b\<rparr> w w'"
    by (auto elim!: yieldsE)
  show ?thesis
    unfolding EventGetType h(2) event_step.simps eq option.map snd_conv yields_Some
    by (intro conjI implements_same [OF im h(1) fr] forgets_frame(2) [where M = M and h = h and P = P, OF h(1) fr])
next
  case (EventTest h)
  then obtain ty b where h: "M h = Some (ty, b)" "M' = M" using sp by (cases "M h") (simp, force)
  from event_test_live [OF implementsD [OF im h(1)]] obtain v w' where
    eq: "ofc_event_test_impl E h w = Some (v, w')" and fr: "event_frame (P h) \<lparr>eventType = ty, signalled = b\<rparr> w w'"
    by (auto elim!: yieldsE)
  show ?thesis
    unfolding EventTest h(2) event_step.simps eq option.map snd_conv yields_Some
    by (intro conjI implements_same [OF im h(1) fr] forgets_frame(2) [where M = M and h = h and P = P, OF h(1) fr])
qed (use sp in auto)

lemma spec_run_refines:
  "implements E P M w \<Longrightarrow> spec_run ops M = Some M' \<Longrightarrow>
   yields (run_ops (event_step E) ops w) (\<lambda>w'. implements E P M' w' \<and> forgets P M M' w w')"
proof (induction ops arbitrary: M w)
  case Nil
  then show ?case by (simp add: wp forgets_refl)
next
  case (Cons op ops)
  then obtain M1 where 1: "spec_step op M = Some M1" "spec_run ops M1 = Some M'"
    by (auto split: bind_splits)
  obtain w1 where w1: "event_step E op w = Some w1" "implements E P M1 w1" "forgets P M M1 w w1"
    using spec_step_refines [OF Cons.prems(1) 1(1)] by (auto elim!: yieldsE)
  have inj: "inj_on P (dom M)" using Cons.prems(1) by (simp add: implements_def)
  from Cons.IH [OF w1(2) 1(2)] show ?case
    using w1(1) by (auto simp: wp elim!: yields_mono intro: forgets_trans [OF w1(3) _ inj])
qed

text \<open>
  C2. A table from handles to a type and a flag specifies the events: after any sequence of
  sets, resets, tests, looks at the type, waits on signalled events and destructions, on live
  events, that the table allows, the type and flag the code reports for a handle are those of
  the table, and every event that was destroyed is gone, its handle and its structure.
\<close>

theorem events_refine_spec:
  assumes "implements E P M w" and "spec_run ops M = Some M'" and "M' h = Some (ty, b)"
  shows "yields (do {
      w \<leftarrow> run_ops (event_step E) ops w;
      (t, w) \<leftarrow> ofc_event_get_type_impl E h w;
      (r, w) \<leftarrow> ofc_event_test_impl E h w;
      Some ((t, r), w) }) (\<lambda>((t, r), w'). t = ty \<and> r = b \<and> implements E P M' w' \<and>
      (\<forall>g\<in>dom M - dom M'. dead (calls w') g \<and> ev_mem w' (P g) = None))"
proof -
  have inj: "inj_on P (dom M)" using assms(1) by (simp add: implements_def)
  obtain w1 where 1: "run_ops (event_step E) ops w = Some w1" "implements E P M' w1" "forgets P M M' w w1"
    using spec_run_refines [OF assms(1,2)] by (auto elim!: yieldsE)
  obtain w2 where 2: "ofc_event_get_type_impl E h w1 = Some (ty, w2)" "implements E P M' w2" "forgets P M' M' w1 w2"
    using event_get_type_live [OF implementsD [OF 1(2) assms(3)]] implements_same [OF 1(2) assms(3)]
      forgets_frame(2) [where M = M' and h = h and P = P, OF assms(3)] by (auto elim!: yieldsE)
  obtain w3 where 3: "ofc_event_test_impl E h w2 = Some (b, w3)" "implements E P M' w3" "forgets P M' M' w2 w3"
    using event_test_live [OF implementsD [OF 2(2) assms(3)]] implements_same [OF 2(2) assms(3)]
      forgets_frame(2) [where M = M' and h = h and P = P, OF assms(3)] by (auto elim!: yieldsE)
  have "forgets P M M' w w3"
    by (rule forgets_trans [OF forgets_trans [OF 1(3) 2(3) inj] 3(3) inj])
  then show ?thesis using 1(1) 2(1) 3 by (simp add: wp forgets_def)
qed

section \<open>The interface the wait set relies on\<close>

text \<open>
  The wait set takes an event in two or three calls: it tests it and, when it is signalled and
  automatic, resets it. All it needs to know of events is a contract: what the three calls
  return and that they change nothing but the event named.
\<close>

definition claim_event ::
  "(handle \<Rightarrow> world \<Rightarrow> bool result) \<Rightarrow> (handle \<Rightarrow> world \<Rightarrow> event_type result) \<Rightarrow>
   (handle \<Rightarrow> world \<Rightarrow> world option) \<Rightarrow> handle \<Rightarrow> world \<Rightarrow> bool result" where
  "claim_event test get_type reset h w = do {
     (b, w) \<leftarrow> test h w;
     if b then do {
       (ty, w) \<leftarrow> get_type h w;
       w \<leftarrow> (if ty = OFC_EVENT_AUTO then reset h w else Some w);
       Some (True, w)
     } else Some (False, w)
   }"

locale event_services =
  fixes test :: "handle \<Rightarrow> world \<Rightarrow> bool result"
    and get_type :: "handle \<Rightarrow> world \<Rightarrow> event_type result"
    and reset :: "handle \<Rightarrow> world \<Rightarrow> world option"
    and at :: "handle \<Rightarrow> ptr \<Rightarrow> android_event \<Rightarrow> world \<Rightarrow> bool"
    and frame :: "ptr \<Rightarrow> android_event \<Rightarrow> world \<Rightarrow> world \<Rightarrow> bool"
  assumes test_law: "at h p e w \<Longrightarrow> yields (test h w) (\<lambda>(b, w'). b = signalled e \<and> frame p e w w')"
    and get_type_law: "at h p e w \<Longrightarrow> yields (get_type h w) (\<lambda>(ty, w'). ty = eventType e \<and> frame p e w w')"
    and reset_law: "at h p e w \<Longrightarrow> yields (reset h w) (frame p (e\<lparr>signalled := False\<rparr>) w)"
    and frame_at: "frame p e w w' \<Longrightarrow> at h p e0 w \<Longrightarrow> at h p e w'"
    and frame_trans: "frame p e w w' \<Longrightarrow> frame p e' w' w'' \<Longrightarrow> frame p e' w w''"
begin

lemma claim:
  assumes "at h p e w"
  shows "yields (claim_event test get_type reset h w) (\<lambda>(b, w').
    b = signalled e \<and> frame p (if b then leave_wait e else e) w w')"
proof -
  obtain w1 where 1: "test h w = Some (signalled e, w1)" "frame p e w w1"
    using test_law [OF assms] by (auto elim!: yieldsE)
  note a1 = frame_at [OF 1(2) assms]
  obtain w2 where 2: "get_type h w1 = Some (eventType e, w2)" "frame p e w1 w2"
    using get_type_law [OF a1] by (auto elim!: yieldsE)
  obtain w3 where 3: "reset h w2 = Some w3" "frame p (e\<lparr>signalled := False\<rparr>) w2 w3"
    using reset_law [OF frame_at [OF 2(2) a1]] by (auto elim!: yieldsE)
  show ?thesis
    using 1 2 3 frame_trans [OF 1(2) 2(2)] frame_trans [OF frame_trans [OF 1(2) 2(2)] 3(2)]
    by (simp add: claim_event_def wp leave_wait_def)
qed

end

interpretation event: event_services
  "ofc_event_test_impl E" "ofc_event_get_type_impl E" "ofc_event_reset_impl E" "event_at E" event_frame
  by unfold_locales
     (erule event_test_live event_get_type_live event_reset_live event_frame_at(1) event_frame_trans, assumption?)+

text \<open>OpenFiles' core forwards the event calls to the functions of this file.\<close>

definition core_forwards :: "env \<Rightarrow> bool" where
  "core_forwards E \<longleftrightarrow>
     core_event_test E = ofc_event_test_impl E \<and>
     core_event_get_type E = ofc_event_get_type_impl E \<and>
     core_event_reset E = ofc_event_reset_impl E \<and>
     core_event_set E = ofc_event_set_impl E \<and>
     core_waitset_wake E = ofc_waitset_wake_impl E"

section \<open>Setting an event wakes its wait set\<close>

text \<open>
  C17. Setting an event that belongs to a wait set raises its flag, broadcasts its condition and
  writes its handle to the pipe of that set and to no other pipe; handle locks and mutexes are
  released.
\<close>

theorem event_set_wakes:
  assumes at: "event_at E h p e w"
    and g: "\<And>hist. respond E hist (Pkg (HandleGetWaitSet h)) = r" "r_addr r \<noteq> OFC_HANDLE_NULL"
    and ws: "waitset_at E (r_addr r) q ws aws w"
  shows "yields (ofc_event_set_impl E h w) (\<lambda>w'.
    ev_mem w' = (ev_mem w)(p \<mapsto> e\<lparr>signalled := True\<rparr>) \<and>
    (\<forall>d. written (calls w') d = written (calls w) d @ (if d = pipe_write aws then [h] else [])) \<and>
    Pthread (CondBroadcast p) \<in> fst ` set (calls w') \<and> same_locks w w' \<and>
    (\<forall>m. mutex_held (calls w') m = mutex_held (calls w) m))"
proof -
  note l = event_atD [OF at] event_at_lock [OF at] waitset_atD [OF ws]
  have q: "r_addr (respond E hist (Pkg (HandleLock (r_addr r)))) = q" if "\<not> dead hist (r_addr r)" for hist
    using ws that by (simp add: waitset_at_def locks_to_def)
  show ?thesis
    using l g(2)
    by (auto simp: ofc_event_set_impl_def ofc_waitset_signal_impl_def Let_def wp call_known [OF g(1)]
        same_locks_def answers_def q split: call_splits)
qed

text \<open>
  A wait that is woken returns, whoever woke it: the flag is not looked at again. With no
  interference at all the thread comes back from an event that was never set.
\<close>

theorem wait_spurious:
  assumes "event_at E h p e w" and "\<not> signalled e"
  shows "yields (ofc_event_wait_impl E (\<lambda>m. m) h w) (\<lambda>w'.
    event_at E h p e w' \<and> Pthread (CondWait p) \<in> fst ` set (calls w'))"
proof -
  have "leave_wait e = e" using assms(2) by (simp add: leave_wait_def)
  moreover have "enter_wait e = None" using assms(2) by (simp add: enter_wait_def)
  ultimately show ?thesis
    using wait_blocked [OF assms(1), of "\<lambda>m. m" e] event_atD(3) [OF assms(1)] assms(1)
    by (auto simp: event_at_def elim!: yields_mono)
qed

theorem events_stay_owned:
  assumes "fresh_alloc E" and "owned ev_mem w" and "run_ops (event_step E) ops w = Some w'"
  shows "owned ev_mem w'"
  using assms by (rule event.run_owned)

theorem event_balanced:
  assumes "\<forall>h. held (calls w) h = 0" and "run_ops (event_step E) ops w = Some w'"
  shows "held (calls w') h = 0 \<and> mutex_held (calls w') p = mutex_held (calls w) p"
proof
  show "held (calls w') h = 0" using assms by (rule event.run_unlocked)
  have "returns (run_ops (event_step E) ops w) (\<lambda>v. mutex_held (calls v) p = mutex_held (calls w) p)"
    by (rule run_ops_invariant) (metis (mono_tags, lifting) event_step_mutex returns_def)+
  then show "mutex_held (calls w') p = mutex_held (calls w) p" by (rule returns_D [OF _ assms(2)])
qed

section \<open>Any number of threads\<close>

text \<open>
  Threads that execute the functions above on the same events, one critical section at a time: a
  set, a reset, a wait that finds the flag up, the two sections of a wait that sleeps. A thread
  that has called \<open>pthread_cond_wait\<close> is \<open>Asleep\<close>. It is \<open>Woken\<close> when another thread calls
  \<open>pthread_cond_broadcast\<close> for that event, or for no reason at all, and goes on when it has the
  mutex again. Which broadcasts a set executes is read off the calls it makes.
\<close>

datatype thread_state = Idle | Asleep handle ptr | Woken handle ptr

datatype 't action =
    SetEvent handle | ResetEvent handle | WaitNow 't handle | WaitSleep 't handle | Spurious 't | WaitReturn 't

definition calls_since :: "world \<Rightarrow> world \<Rightarrow> history" where
  "calls_since w w' = take (length (calls w') - length (calls w)) (calls w')"

definition awaken :: "history \<Rightarrow> ('t \<Rightarrow> thread_state) \<Rightarrow> 't \<Rightarrow> thread_state" where
  "awaken cs st t = (case st t of
     Asleep h p \<Rightarrow> if Pthread (CondBroadcast p) \<in> fst ` set cs then Woken h p else Asleep h p
   | s \<Rightarrow> s)"

inductive threads_step :: "env \<Rightarrow> world \<times> ('t \<Rightarrow> thread_state) \<Rightarrow> 't action \<Rightarrow> world \<times> ('t \<Rightarrow> thread_state) \<Rightarrow> bool"
  for E where
  set_event: "ofc_event_set_impl E h w = Some w' \<Longrightarrow>
    threads_step E (w, st) (SetEvent h) (w', awaken (calls_since w w') st)"
| reset_event: "ofc_event_reset_impl E h w = Some w' \<Longrightarrow> threads_step E (w, st) (ResetEvent h) (w', st)"
| wait_now: "st t = Idle \<Longrightarrow> event_wait_enter E h w = Some ((p, False), w1) \<Longrightarrow> event_wait_leave E h p w1 = Some w' \<Longrightarrow>
    threads_step E (w, st) (WaitNow t h) (w', st)"
| wait_sleep: "st t = Idle \<Longrightarrow> event_wait_enter E h w = Some ((p, True), w') \<Longrightarrow>
    threads_step E (w, st) (WaitSleep t h) (w', st(t := Asleep h p))"
| spurious: "st t = Asleep h p \<Longrightarrow> threads_step E (w, st) (Spurious t) (w, st(t := Woken h p))"
| wait_return: "st t = Woken h p \<Longrightarrow> event_wait_leave E h p w = Some w' \<Longrightarrow>
    threads_step E (w, st) (WaitReturn t) (w', st(t := Idle))"

inductive threads_run :: "env \<Rightarrow> world \<times> ('t \<Rightarrow> thread_state) \<Rightarrow> 't action list \<Rightarrow> world \<times> ('t \<Rightarrow> thread_state) \<Rightarrow> bool"
  for E where
  run_nil: "threads_run E s [] s"
| run_cons: "threads_step E s a s' \<Longrightarrow> threads_run E s' as s'' \<Longrightarrow> threads_run E s (a # as) s''"

text \<open>Nobody sleeps on an event whose flag is up.\<close>

definition nobody_sleeps :: "world \<times> ('t \<Rightarrow> thread_state) \<Rightarrow> bool" where
  "nobody_sleeps s \<longleftrightarrow> (\<forall>t h p e. snd s t = Asleep h p \<longrightarrow> ev_mem (fst s) p = Some e \<longrightarrow> \<not> signalled e)"

text \<open>Which flags a section can raise: a set only that of the event whose condition it broadcasts.\<close>

definition raises :: "world \<Rightarrow> world \<Rightarrow> ptr set" where
  "raises w w' = {p. \<exists>e. ev_mem w' p = Some e \<and> signalled e \<and> ev_mem w p \<noteq> Some e}"

lemma sections_raise:
  "returns (ofc_event_set_impl E h w) (\<lambda>w'. \<forall>p\<in>raises w w'. Pthread (CondBroadcast p) \<in> fst ` set (calls_since w w'))"
  "returns (ofc_event_reset_impl E h w) (\<lambda>w'. raises w w' = {})"
  "returns (event_wait_enter E h w) (\<lambda>((p, asleep), w'). ev_mem w' = ev_mem w \<and>
     (asleep \<longrightarrow> (\<exists>e. ev_mem w p = Some e \<and> \<not> signalled e)))"
  "returns (event_wait_leave E h p w) (\<lambda>w'. raises w w' = {})"
  by (auto simp: event_wait_defs ofc_event_set_impl_def ofc_event_reset_impl_def ofc_waitset_signal_impl_def
      calls_since_def raises_def Let_def wp split: call_splits if_splits)

lemma still_nobody_sleeps:
  assumes "nobody_sleeps (w, st)" and "\<And>t h p. st' t = Asleep h p \<Longrightarrow> st t = Asleep h p \<and> p \<notin> raises w w'"
  shows "nobody_sleeps (w', st')"
  unfolding nobody_sleeps_def fst_conv snd_conv
proof (intro allI impI notI)
  fix t h p e
  assume t: "st' t = Asleep h p" and e: "ev_mem w' p = Some e" "signalled e"
  from assms(2) [OF t] e have "st t = Asleep h p" "ev_mem w p = Some e" by (auto simp: raises_def)
  with assms(1) e(2) show False by (simp add: nobody_sleeps_def)
qed

lemma awaken_asleep: "awaken cs st t = Asleep h p \<longleftrightarrow> st t = Asleep h p \<and> Pthread (CondBroadcast p) \<notin> fst ` set cs"
  by (auto simp: awaken_def split: thread_state.splits)

lemma step_nobody_sleeps:
  assumes "threads_step E s a s'" and "nobody_sleeps s"
  shows "nobody_sleeps s'"
  using assms(1)
proof (cases rule: threads_step.cases)
  case (set_event h w w' st)
  have "nobody_sleeps (w, st)" using assms(2) set_event(1) by simp
  then show ?thesis
    unfolding set_event(3)
    by (rule still_nobody_sleeps) (use returns_D [OF sections_raise(1) set_event(4)] in \<open>auto simp: awaken_asleep\<close>)
next
  case (reset_event h w w' st)
  have "nobody_sleeps (w, st)" using assms(2) reset_event(1) by simp
  then show ?thesis
    unfolding reset_event(3)
    by (rule still_nobody_sleeps) (simp add: returns_D [OF sections_raise(2) reset_event(4)])
next
  case (wait_now st t h w p w1 w')
  have ns: "nobody_sleeps (w, st)" using assms(2) wait_now(1) by simp
  have "raises w w' = {}"
    using returns_D [OF sections_raise(3) wait_now(5)] returns_D [OF sections_raise(4) wait_now(6)]
    by (simp add: raises_def)
  then show ?thesis
    unfolding wait_now(3) by (intro still_nobody_sleeps [OF ns]) simp
next
  case (wait_sleep st t h w p w')
  have "nobody_sleeps (w, st)" using assms(2) wait_sleep(1) by simp
  with returns_D [OF sections_raise(3) wait_sleep(5)] show ?thesis
    unfolding wait_sleep(3) by (auto simp: nobody_sleeps_def)
next
  case (spurious st t h p w)
  with assms(2) show ?thesis by (simp add: nobody_sleeps_def)
next
  case (wait_return st t h p w w')
  have "nobody_sleeps (w, st)" using assms(2) wait_return(1) by simp
  then show ?thesis
    unfolding wait_return(3)
    by (rule still_nobody_sleeps) (auto simp: returns_D [OF sections_raise(4) wait_return(5)] split: if_splits)
qed

text \<open>
  C18. In every interleaving of any number of threads that execute the set, the reset and the
  two critical sections of the wait on the events of a program, with spurious wake-ups at any
  time, no thread is asleep on an event whose flag is up: a set is never lost between the check
  of the flag and the sleep. A sleeping thread is woken only by a broadcast that the code makes,
  or spuriously.
\<close>

theorem no_lost_wakeup:
  assumes "threads_run E (w, st) as (w', st')" and "\<forall>t. st t = Idle"
    and "st' t = Asleep h p" and "ev_mem w' p = Some e"
  shows "\<not> signalled e"
proof -
  have "nobody_sleeps s \<Longrightarrow> threads_run E s as s' \<Longrightarrow> nobody_sleeps s'" for s s'
    by (rotate_tac, induction rule: threads_run.induct) (auto intro: step_nobody_sleeps)
  from this [OF _ assms(1)] have "nobody_sleeps (w', st')"
    using assms(2) by (simp add: nobody_sleeps_def)
  then show ?thesis using assms(3,4) by (simp add: nobody_sleeps_def)
qed

text \<open>One set, and every sleeping thread comes back.\<close>

lemma set_broadcasts:
  assumes "event_at E h p e w" and "sinks_live E w"
  shows "yields (ofc_event_set_impl E h w) (\<lambda>w'. event_at E h p (e\<lparr>signalled := True\<rparr>) w' \<and>
    Pthread (CondBroadcast p) \<in> fst ` set (calls_since w w'))"
proof -
  have "returns (ofc_event_set_impl E h w) (\<lambda>w'. Pthread (CondBroadcast p) \<in> fst ` set (calls_since w w'))"
    using event_atD [OF assms(1)] event_at_lock [OF assms(1)]
    by (auto simp: ofc_event_set_impl_def ofc_waitset_signal_impl_def calls_since_def Let_def wp split: call_splits)
  from yields_and_returns [OF event_set_live [OF assms] this] show ?thesis
    by (rule yields_mono) (use event_frame_at(1) [OF _ assms(1)] in auto)
qed

lemma leave_live:
  assumes "event_at E h p e w"
  shows "yields (event_wait_leave E h p w) (event_at E h p (leave_wait e))"
  using event_atD [OF assms] assms
  by (auto simp: event_wait_leave_def leave_wait_def event_at_def Let_def wp split: call_splits)

lemma all_return:
  "distinct ts \<Longrightarrow> \<forall>t\<in>set ts. st t = Woken h p \<Longrightarrow> event_at E h p e w \<Longrightarrow>
   \<exists>w' st' e'. threads_run E (w, st) (map WaitReturn ts) (w', st') \<and>
     (\<forall>t. st' t = (if t \<in> set ts then Idle else st t)) \<and> event_at E h p e' w' \<and>
     eventType e' = eventType e \<and> signalled e' = (signalled e \<and> (ts = [] \<or> eventType e = OFC_EVENT_MANUAL))"
proof (induction ts arbitrary: w st e)
  case Nil
  then show ?case by (auto intro: run_nil)
next
  case (Cons t ts)
  obtain v where v: "event_wait_leave E h p w = Some v" "event_at E h p (leave_wait e) v"
    using leave_live [OF Cons.prems(3)] by (auto elim!: yieldsE)
  have "threads_step E (w, st) (WaitReturn t) (v, st(t := Idle))"
    using Cons.prems(2) by (intro wait_return [OF _ v(1)]) simp
  note step = run_cons [OF this]
  have "\<forall>u\<in>set ts. (st(t := Idle)) u = Woken h p" using Cons.prems(1,2) by auto
  moreover have "distinct ts" using Cons.prems(1) by simp
  ultimately obtain w' st' e' where
    r: "threads_run E (v, st(t := Idle)) (map WaitReturn ts) (w', st')"
    and st': "\<forall>u. st' u = (if u \<in> set ts then Idle else (st(t := Idle)) u)" and at: "event_at E h p e' w'"
    and e': "eventType e' = eventType (leave_wait e)"
      "signalled e' = (signalled (leave_wait e) \<and> (ts = [] \<or> eventType (leave_wait e) = OFC_EVENT_MANUAL))"
    using Cons.IH [OF _ _ v(2)] by blast
  have "threads_run E (w, st) (map WaitReturn (t # ts)) (w', st')" using step [OF r] by simp
  moreover have "\<forall>u. st' u = (if u \<in> set (t # ts) then Idle else st u)" using st' by simp
  moreover have "eventType e' = eventType e" using e' by (simp add: leave_wait_def)
  moreover have "signalled e' = (signalled e \<and> (t # ts = [] \<or> eventType e = OFC_EVENT_MANUAL))"
    using e' by (cases "eventType e") (auto simp: leave_wait_def)
  ultimately show ?case using at by blast
qed

text \<open>
  C25. One set of an automatic event releases every thread that sleeps on it, not one: the
  broadcast of the code wakes them all, each returns from its wait without another look at the
  flag, and the flag is down in the end (a manual event stays up).
\<close>

theorem broadcast_releases_all:
  assumes at: "event_at E h p e w" and sinks: "sinks_live E w"
    and ts: "distinct ts" "\<forall>t\<in>set ts. st t = Asleep h p" "ts \<noteq> []"
  shows "\<exists>w' st' e'. threads_run E (w, st) (SetEvent h # map WaitReturn ts) (w', st') \<and>
    (\<forall>t\<in>set ts. st' t = Idle) \<and> (\<forall>t. st' t \<noteq> Asleep h p) \<and>
    event_at E h p e' w' \<and> signalled e' = (eventType e = OFC_EVENT_MANUAL)"
proof -
  obtain v where v: "ofc_event_set_impl E h w = Some v" "event_at E h p (e\<lparr>signalled := True\<rparr>) v"
    and b: "Pthread (CondBroadcast p) \<in> fst ` set (calls_since w v)"
    using set_broadcasts [OF at sinks] by (auto elim!: yieldsE)
  let ?st = "awaken (calls_since w v) st"
  have woken: "\<forall>t\<in>set ts. ?st t = Woken h p" using ts(2) b by (simp add: awaken_def)
  have none: "?st t \<noteq> Asleep h p" for t using b by (simp add: awaken_asleep)
  from all_return [OF ts(1) woken v(2)] obtain w' st' e' where
    r: "threads_run E (v, ?st) (map WaitReturn ts) (w', st')"
    and st': "\<forall>t. st' t = (if t \<in> set ts then Idle else ?st t)" and e': "event_at E h p e' w'"
      "signalled e' = (eventType e = OFC_EVENT_MANUAL)"
    using ts(3) by auto
  from run_cons [OF threads_step.set_event [OF v(1)] r]
  have "threads_run E (w, st) (SetEvent h # map WaitReturn ts) (w', st')" .
  with st' e' none show ?thesis by (intro exI [of _ w'] exI [of _ st'] exI [of _ e']) auto
qed

section \<open>Instances\<close>

text \<open>
  An event behind handle 7 at address 64 that belongs to the wait set behind handle 8, at
  address 96 with its pipe at 128.
\<close>

definition wake_env :: env where
  "wake_env = ref_env (\<lambda>hist c. case c of
     Pkg (HandleLock h) \<Rightarrow> no_resp\<lparr>r_addr := (if h = 7 then 64 else if h = 8 then 96 else 0)\<rparr>
   | Pkg (HandleGetWaitSet h) \<Rightarrow> no_resp\<lparr>r_addr := 8\<rparr>
   | Sys s \<Rightarrow> no_resp\<lparr>r_ret := 8\<rparr>
   | _ \<Rightarrow> no_resp)"

definition demo_world :: "event_type \<Rightarrow> bool \<Rightarrow> world" where
  "demo_world ty b = empty_world\<lparr>calls := [(Pkg Malloc, no_resp\<lparr>r_addr := 64\<rparr>)],
     ev_mem := [64 \<mapsto> \<lparr>eventType = ty, signalled = b\<rparr>],
     ws_mem := [96 \<mapsto> \<lparr>ws_impl = 128, hHandleQueue = 0\<rparr>],
     aws_mem := [128 \<mapsto> \<lparr>pipe_read = 5, pipe_write = 6\<rparr>]\<rparr>"

lemma locks_wake: "locks_to wake_env 7 64" "locks_to wake_env 8 96"
  by (simp_all add: wake_env_def locks_to_def no_resp_def)

lemma respond_wake: "respond wake_env hist (Pkg (HandleGetWaitSet h)) = no_resp\<lparr>r_addr := 8\<rparr>"
  by (simp add: wake_env_def)

lemma demo_at:
  "locks_to E 7 64 \<Longrightarrow> event_at E 7 64 \<lparr>eventType = ty, signalled = b\<rparr> (demo_world ty b)"
  "locks_to E 8 96 \<Longrightarrow> waitset_at E 8 96 \<lparr>ws_impl = 128, hHandleQueue = 0\<rparr>
     \<lparr>pipe_read = 5, pipe_write = 6\<rparr> (demo_world ty b)"
  by (simp_all add: event_at_def waitset_at_def demo_world_def)

lemma demo_sinks: "sinks_live (small_env n e bs) w" "sinks_live wake_env (demo_world ty b)"
  using demo_at(2) [OF locks_wake(2), of ty b]
  by (auto simp: sinks_live_def small_env_def respond_wake no_resp_def)

theorem wake_writes_null_witness:
  "yields (ofc_waitset_wake_impl wake_env 8 (demo_world OFC_EVENT_AUTO False))
     (\<lambda>w'. written (calls w') 6 = [OFC_HANDLE_NULL])"
  using wake_writes_null [OF demo_at(2) [OF locks_wake(2)], of OFC_EVENT_AUTO False]
  by (auto simp: demo_world_def elim!: yields_mono)

theorem waitset_create_destroy_witness:
  "yields (do { w \<leftarrow> ofc_waitset_create_impl (const_env 128 0) 96 (demo_world OFC_EVENT_AUTO False);
                ofc_waitset_destroy_impl (const_env 128 0) 96 w })
     (\<lambda>w'. aws_mem w' 128 = None)"
proof -
  have "ws_mem (demo_world OFC_EVENT_AUTO False) 96 = Some \<lparr>ws_impl = 128, hHandleQueue = 0\<rparr>"
    "aws_mem (demo_world OFC_EVENT_AUTO False) OFC_NULL = None"
    by (simp_all add: demo_world_def)
  from waitset_create_destroy [OF this respond_const _ respond_const, of 0 128] show ?thesis
    by (rule yields_mono) (simp_all add: no_resp_def)
qed

theorem event_set_wakes_witness:
  "yields (ofc_event_set_impl wake_env 7 (demo_world OFC_EVENT_AUTO False)) (\<lambda>w'.
     ev_mem w' 64 = Some \<lparr>eventType = OFC_EVENT_AUTO, signalled = True\<rparr> \<and> written (calls w') 6 = [7])"
proof -
  have "waitset_at wake_env (r_addr (no_resp\<lparr>r_addr := 8\<rparr>)) 96 \<lparr>ws_impl = 128, hHandleQueue = 0\<rparr>
     \<lparr>pipe_read = 5, pipe_write = 6\<rparr> (demo_world OFC_EVENT_AUTO False)"
    using demo_at(2) [OF locks_wake(2)] by (simp add: no_resp_def)
  from event_set_wakes [OF demo_at(1) [OF locks_wake(1)] respond_wake _ this] show ?thesis
    by (rule yields_mono) (simp_all add: demo_world_def no_resp_def)
qed

theorem wait_spurious_witness:
  "yields (ofc_event_wait_impl wake_env (\<lambda>m. m) 7 (demo_world OFC_EVENT_MANUAL False)) (\<lambda>w'.
     ev_mem w' 64 = Some \<lparr>eventType = OFC_EVENT_MANUAL, signalled = False\<rparr>)"
  using wait_spurious [OF demo_at(1) [OF locks_wake(1)], of OFC_EVENT_MANUAL False]
  by (auto simp: event_at_def elim!: yields_mono)

lemma implements_demo:
  "implements (small_env n e bs) (\<lambda>_. 64) [7 \<mapsto> (ty, b)] (demo_world ty b)"
proof -
  have "r_addr (respond (small_env n e bs) hist (Pkg (HandleGetWaitSet g))) = 0" for hist g
    by (simp add: small_env_def no_resp_def)
  then show ?thesis
    using demo_at(1) [OF locks_small(1)] demo_sinks(1) by (auto simp: implements_def)
qed

theorem events_refine_spec_witness:
  "yields (do {
      w \<leftarrow> run_ops (event_step (small_env 0 0 [])) [EventSet 7, EventWait 7 (\<lambda>m. m)]
             (demo_world OFC_EVENT_AUTO False);
      (t, w) \<leftarrow> ofc_event_get_type_impl (small_env 0 0 []) 7 w;
      (r, w) \<leftarrow> ofc_event_test_impl (small_env 0 0 []) 7 w;
      Some ((t, r), w) }) (\<lambda>((t, r), w'). t = OFC_EVENT_AUTO \<and> \<not> r)"
proof -
  have "spec_run [EventSet 7, EventWait 7 (\<lambda>m. m)] [7 \<mapsto> (OFC_EVENT_AUTO, False)] =
      Some [7 \<mapsto> (OFC_EVENT_AUTO, False)]"
    by simp
  from events_refine_spec [OF implements_demo this, where h = 7 and ty = OFC_EVENT_AUTO and b = False]
  show ?thesis by (rule yields_mono) auto
qed

lemma demo_run: "\<exists>w'. run_ops (event_step (small_env 0 0 [])) [EventTest 7, EventDestroy 7]
    (demo_world OFC_EVENT_AUTO True) = Some w'"
proof -
  have "case run_ops (event_step (small_env 0 0 [])) [EventTest 7, EventDestroy 7]
      (demo_world OFC_EVENT_AUTO True) of None \<Rightarrow> False | Some w' \<Rightarrow> True"
    by code_simp
  then show ?thesis by (auto split: option.splits)
qed

theorem events_stay_owned_witness:
  "\<exists>w'. run_ops (event_step (small_env 0 0 [])) [EventTest 7, EventDestroy 7]
          (demo_world OFC_EVENT_AUTO True) = Some w' \<and> owned ev_mem w'"
proof -
  have "owned ev_mem (demo_world OFC_EVENT_AUTO True)"
    by (simp add: owned_def demo_world_def no_resp_def)
  then show ?thesis using demo_run events_stay_owned [OF fresh_small] by blast
qed

theorem event_balanced_witness:
  "\<exists>w'. run_ops (event_step (small_env 0 0 [])) [EventTest 7, EventDestroy 7]
          (demo_world OFC_EVENT_AUTO True) = Some w' \<and> held (calls w') 7 = 0 \<and>
        mutex_held (calls w') 64 = mutex_held (calls (demo_world OFC_EVENT_AUTO True)) 64"
proof -
  have "\<forall>h. held (calls (demo_world OFC_EVENT_AUTO True)) h = 0"
    by (simp add: demo_world_def)
  then show ?thesis using demo_run event_balanced by blast
qed

text \<open>Two threads, named by numbers, sleep on an automatic event; a third sets it.\<close>

definition two_asleep :: "nat \<Rightarrow> thread_state" where
  "two_asleep t = (if t \<in> {1, 2} then Asleep 7 64 else Idle)"

lemma first_sleeps:
  "\<exists>w'. threads_run wake_env (demo_world OFC_EVENT_AUTO False, \<lambda>_. Idle) [WaitSleep (2 :: nat) 7] (w', (\<lambda>_. Idle)(2 := Asleep 7 64)) \<and>
     ev_mem w' 64 = Some \<lparr>eventType = OFC_EVENT_AUTO, signalled = False\<rparr>"
proof -
  let ?w = "demo_world OFC_EVENT_AUTO False"
  have at: "event_at wake_env 7 64 \<lparr>eventType = OFC_EVENT_AUTO, signalled = False\<rparr> ?w" by (rule demo_at(1) [OF locks_wake(1)])
  have "yields (event_wait_enter wake_env 7 ?w) (\<lambda>(x, w'). x = (64, True) \<and> ev_mem w' = ev_mem ?w)"
    using event_atD [OF at] event_at_lock [OF at] by (auto simp: event_wait_enter_def Let_def wp split: call_splits)
  then obtain w' where w': "event_wait_enter wake_env 7 ?w = Some ((64, True), w')" "ev_mem w' = ev_mem ?w"
    by (auto elim!: yieldsE)
  have "threads_step wake_env (?w, \<lambda>_. Idle) (WaitSleep (2 :: nat) 7) (w', (\<lambda>_. Idle)(2 := Asleep 7 64))"
    by (rule wait_sleep [OF _ w'(1)]) simp
  from run_cons [OF this run_nil] w'(2) show ?thesis by (auto simp: demo_world_def)
qed

theorem no_lost_wakeup_witness:
  "\<exists>w' st'. threads_run wake_env (demo_world OFC_EVENT_AUTO False, \<lambda>_. Idle) [WaitSleep (2 :: nat) 7] (w', st') \<and>
     st' 2 = Asleep 7 64 \<and> \<not> signalled (the (ev_mem w' 64))"
proof -
  obtain w' where r: "threads_run wake_env (demo_world OFC_EVENT_AUTO False, \<lambda>_. Idle) [WaitSleep (2 :: nat) 7]
      (w', (\<lambda>_. Idle)(2 := Asleep 7 64))" and e: "ev_mem w' 64 = Some \<lparr>eventType = OFC_EVENT_AUTO, signalled = False\<rparr>"
    using first_sleeps by blast
  have "\<not> signalled \<lparr>eventType = OFC_EVENT_AUTO, signalled = False\<rparr>"
    by (rule no_lost_wakeup [OF r _ _ e, of 2 7]) simp_all
  with r e show ?thesis
    by (intro exI [of _ w'] exI [of _ "(\<lambda>_. Idle)(2 := Asleep 7 64)"]) simp
qed

theorem broadcast_releases_all_witness:
  "\<exists>w' st'. threads_run wake_env (demo_world OFC_EVENT_AUTO False, two_asleep) [SetEvent 7, WaitReturn 1, WaitReturn 2] (w', st') \<and>
     st' 1 = Idle \<and> st' 2 = Idle \<and> \<not> signalled (the (ev_mem w' 64))"
proof -
  have "\<forall>t\<in>set [1, 2]. two_asleep t = Asleep 7 64" by (simp add: two_asleep_def)
  from broadcast_releases_all [OF demo_at(1) [OF locks_wake(1), of OFC_EVENT_AUTO False] demo_sinks(2) _ this]
  obtain w' st' e' where "threads_run wake_env (demo_world OFC_EVENT_AUTO False, two_asleep)
      (SetEvent 7 # map WaitReturn [1, 2]) (w', st')" "\<forall>t\<in>set [1, 2]. st' t = Idle"
    "event_at wake_env 7 64 e' w'" "\<not> signalled e'"
    by auto
  then show ?thesis using event_atD(3) [of wake_env 7 64 e' w'] by (intro exI [of _ w'] exI [of _ st']) simp
qed

end
