(* ===== verification/OFC_Waitset.thy ===== *)
theory OFC_Waitset
  imports OFC_Event OFC_Socket
begin

text \<open>
  Waiting on a wait set (second part of src/src/waitset\_android.c): the scan over the handles of
  the set, the poll on its sockets and its pipe, and what a handle needs when it is added. The
  lemmas show which handle a wait returns, that it consumes no other event, the time it sleeps,
  and that it gives back every block and lock.
\<close>

section \<open>Reading the pipe\<close>

text \<open>\<open>EVENT_ELEMENT\<close>, and the walk over the private queue of them.\<close>

record event_element =
  hEvent :: handle
  hAssoc :: handle

definition queue_walk :: "env \<Rightarrow> 'a list \<Rightarrow> 'a list" where
  "queue_walk E xs = map ((!) xs) (filter (\<lambda>i. i < length xs) (queue_order E (length xs)))"

text \<open>
  The loop goes on while whole handles are read that are neither the null handle nor the handle
  of a signalled event in the queue; it may go on for ever, and \<open>None\<close> stands for that as well.
\<close>

partial_function (option) PollEvent ::
  "env \<Rightarrow> int \<Rightarrow> event_element list \<Rightarrow> world \<Rightarrow> (handle \<times> world) option" where
  "PollEvent E d eventQueue w =
     (let (r, w) = call E (Sys (SysRead d)) w;
          h = r_addr r
      in if r_ret r \<noteq> 8 then Some (OFC_HANDLE_NULL, w)
         else if h = OFC_HANDLE_NULL then Some (OFC_HANDLE_NULL, w)
         else do {
           (triggered, w) \<leftarrow>
             (case find (\<lambda>e. hEvent e = h) (queue_walk E eventQueue) of
                None \<Rightarrow> Some (OFC_HANDLE_NULL, w)
              | Some e \<Rightarrow> do {
                  (b, w) \<leftarrow> claim_event (core_event_test E) (core_event_get_type E) (core_event_reset E) h w;
                  Some (if b then hAssoc e else OFC_HANDLE_NULL, w) });
           if triggered = OFC_HANDLE_NULL then PollEvent E d eventQueue w else Some (triggered, w)
         })"

partial_function (option) purge :: "env \<Rightarrow> int \<Rightarrow> world \<Rightarrow> world option" where
  "purge E d w =
     (let (n, w) = call_ret E (Sys (SysRead d)) w
      in if n > 0 then purge E d w else Some w)"

text \<open>
  The resolver's entry point is looked up once and kept. \<open>ofc_process_crash\<close> does not return.
\<close>

definition ofc_android_get_resolver_overlapped_event :: "env \<Rightarrow> handle \<Rightarrow> world \<Rightarrow> handle result" where
  "ofc_android_get_resolver_overlapped_event E h w =
     (let w = (if overlapped_function w = OFC_NULL
               then let (f, w) = call_addr E (Core (Dlsym ''OfcFSResolverGetOverlappedEvent'')) w
                    in w\<lparr>overlapped_function := f\<rparr>
               else w)
      in if overlapped_function w = OFC_NULL then None
         else Some (call_addr E (Core (ResolverOverlappedEvent (overlapped_function w) h)) w))"

section \<open>The scan\<close>

text \<open>The local variables of \<open>ofc_waitset_wait_impl\<close> during the scan.\<close>

record scan =
  triggered_event :: handle
  leastWait :: int
  timer_event :: handle
  android_handle_list :: "pollfd list"
  android_list_ptr :: ptr
  ofc_handle_list :: "handle list"
  ofc_list_ptr :: ptr
  eventQueue :: "event_element list"
  element_ptrs :: "ptr list"

text \<open>The three pieces of code that the cases of the switch share.\<close>

definition enqueue_element :: "env \<Rightarrow> handle \<Rightarrow> handle \<Rightarrow> scan \<Rightarrow> world \<Rightarrow> scan result" where
  "enqueue_element E ev assoc s w =
     (let (p, w) = call_addr E (Pkg Malloc) w in
      if p = OFC_NULL then None
      else Some (s\<lparr>eventQueue := eventQueue s @ [\<lparr>hEvent = ev, hAssoc = assoc\<rparr>],
                   element_ptrs := element_ptrs s @ [p]\<rparr>, w))"

definition grow_lists :: "env \<Rightarrow> scan \<Rightarrow> world \<Rightarrow> scan result" where
  "grow_lists E s w =
     (let (p, w) = call_addr E (Pkg (Realloc (android_list_ptr s))) w;
          (q, w) = call_addr E (Pkg (Realloc (ofc_list_ptr s))) w
      in if p = OFC_NULL \<or> q = OFC_NULL then None
         else Some (s\<lparr>android_list_ptr := p, ofc_list_ptr := q\<rparr>, w))"

definition append_pollfd :: "pollfd \<Rightarrow> handle \<Rightarrow> scan \<Rightarrow> scan" where
  "append_pollfd pf h s =
     s\<lparr>android_handle_list := android_handle_list s @ [pf], ofc_handle_list := ofc_handle_list s @ [h]\<rparr>"

definition test_or_enqueue :: "env \<Rightarrow> handle \<Rightarrow> handle \<Rightarrow> scan \<Rightarrow> world \<Rightarrow> scan result" where
  "test_or_enqueue E ev h s w = do {
     (b, w) \<leftarrow> core_event_test E ev w;
     if b then Some (s\<lparr>triggered_event := h\<rparr>, w) else enqueue_element E ev h s w
   }"

text \<open>The body of the switch on the type of a handle.\<close>

definition scan_switch :: "env \<Rightarrow> handle_type \<Rightarrow> handle \<Rightarrow> scan \<Rightarrow> world \<Rightarrow> scan result" where
  "scan_switch E t h s w =
     (case t of
        OFC_HANDLE_WAIT_QUEUE \<Rightarrow>
          let (ev, w) = call_addr E (Core (WaitqGetEvent h)) w;
              (empty, w) = call_ret E (Core (WaitqEmpty h)) w
          in if empty = 0 then Some (s\<lparr>triggered_event := h\<rparr>, w) else enqueue_element E ev h s w
      | OFC_HANDLE_FILE \<Rightarrow>
          if cfg_fs_android E then
            let (fsType, w) = call_ret E (Core (FileGetFSType h)) w in
            if fsType = OFC_FST_ANDROID E then do {
              (s, w) \<leftarrow> grow_lists E s w;
              let (fsHandle, w) = call_addr E (Core (FileGetFSHandle h)) w;
              let (d, w) = call_ret E (Core (FSAndroidGetFD fsHandle)) w;
              Some (append_pollfd \<lparr>pfd = d, poll_events = 0\<rparr> h s, w)
            } else Some (s, w)
          else Some (s, w)
      | OFC_HANDLE_SOCKET \<Rightarrow> do {
          (s, w) \<leftarrow> grow_lists E s w;
          let (androidHandle, w) = call_addr E (Core (SocketGetImpl h)) w;
          (d, w) \<leftarrow> ofc_socket_impl_get_fd E androidHandle w;
          (ev, w) \<leftarrow> ofc_socket_impl_get_event E androidHandle w;
          Some (append_pollfd \<lparr>pfd = d, poll_events = ev\<rparr> h s, w)
        }
      | OFC_HANDLE_FSRESOLVER_OVERLAPPED \<Rightarrow>
          if cfg_resolver_fs E then do {
            (ev, w) \<leftarrow> ofc_android_get_resolver_overlapped_event E h w;
            test_or_enqueue E ev h s w
          } else Some (s, w)
      | OFC_HANDLE_FSANDROID_OVERLAPPED \<Rightarrow>
          if cfg_fs_android E then
            let (ev, w) = call_addr E (Core (FSAndroidOverlappedEvent h)) w
            in test_or_enqueue E ev h s w
          else Some (s, w)
      | OFC_HANDLE_FSSMB_OVERLAPPED \<Rightarrow>
          let (hWaitQ, w) = call_addr E (Core (FileOverlappedWaitQ h)) w;
              (ev, w) = call_addr E (Core (WaitqGetEvent hWaitQ)) w;
              (empty, w) = call_ret E (Core (WaitqEmpty hWaitQ)) w
          in if empty = 0 then Some (s\<lparr>triggered_event := h\<rparr>, w) else enqueue_element E ev h s w
      | OFC_HANDLE_EVENT \<Rightarrow> do {
          (b, w) \<leftarrow> claim_event (core_event_test E) (core_event_get_type E) (core_event_reset E) h w;
          if b then Some (s\<lparr>triggered_event := h\<rparr>, w) else enqueue_element E h h s w
        }
      | OFC_HANDLE_TIMER \<Rightarrow>
          let (wait_time, w) = call_ret E (Core (TimerGetWaitTime h)) w
          in if wait_time = 0 then Some (s\<lparr>triggered_event := h\<rparr>, w)
             else if wait_time < leastWait s then Some (s\<lparr>leastWait := wait_time, timer_event := h\<rparr>, w)
             else Some (s, w)
      | _ \<Rightarrow> Some (s, w))"

definition scan_handle :: "env \<Rightarrow> handle \<Rightarrow> scan \<Rightarrow> world \<Rightarrow> scan result" where
  "scan_handle E h s w =
     (let (r, w) = call E (Pkg (HandleGetType h)) w in scan_switch E (r_type r) h s w)"

text \<open>The loop over the set's handles ends at the null handle or when a handle has triggered.\<close>

fun scan_handles :: "env \<Rightarrow> handle list \<Rightarrow> scan \<Rightarrow> world \<Rightarrow> scan result" where
  "scan_handles E [] s w = Some (s, w)"
| "scan_handles E (h # hs) s w =
     (if h \<noteq> OFC_HANDLE_NULL \<and> triggered_event s = OFC_HANDLE_NULL
      then do { (s, w) \<leftarrow> scan_handle E h s w; scan_handles E hs s w }
      else Some (s, w))"

section \<open>The wait\<close>

text \<open>The entry of the poll list that the search for a ready one stops at.\<close>

fun first_ready :: "(16 word) list \<Rightarrow> nat" where
  "first_ready [] = 0"
| "first_ready (re # res) = (if re = 0 then Suc (first_ready res) else 0)"

text \<open>
  While a thread sleeps in \<open>poll\<close>, \<open>others\<close> is what the other threads make of the events.
\<close>

definition poll_handles :: "env \<Rightarrow> interference \<Rightarrow> int \<Rightarrow> scan \<Rightarrow> world \<Rightarrow> handle result" where
  "poll_handles E others pipe s w =
     (let (r, w) = call E (Sys (SysPoll (android_handle_list s) (leastWait s))) w;
          w = w\<lparr>ev_mem := others (ev_mem w)\<rparr>;
          n = length (android_handle_list s);
          revents = map (\<lambda>i. if i < length (r_revents r) then r_revents r ! i else 0) [0..<n]
      in if r_ret r = 0 \<and> timer_event s \<noteq> OFC_HANDLE_NULL then Some (timer_event s, w)
         else if r_ret r > 0 then
           let wait_index = first_ready revents in
           if wait_index = 0 then PollEvent E pipe (eventQueue s) w
           else if wait_index < n then do {
             let (impl, w) = call_addr E (Core (SocketGetImpl (ofc_handle_list s ! wait_index))) w;
             w \<leftarrow> ofc_socket_impl_set_event E impl (revents ! wait_index) w;
             Some (if revents ! wait_index \<noteq> 0 then ofc_handle_list s ! wait_index else OFC_HANDLE_NULL, w)
           } else Some (OFC_HANDLE_NULL, w)
         else Some (OFC_HANDLE_NULL, w))"

text \<open>The elements still queued, the queue and the two lists are given back.\<close>

definition free_scan :: "env \<Rightarrow> ptr \<Rightarrow> scan \<Rightarrow> world \<Rightarrow> world" where
  "free_scan E queue s w =
     (let w = fold (\<lambda>p. call_void E (Pkg (Free p))) (queue_walk E (element_ptrs s)) w;
          w = call_void E (Core (QueueDestroy queue)) w;
          w = call_void E (Pkg (Free (android_list_ptr s))) w
      in call_void E (Pkg (Free (ofc_list_ptr s))) w)"

text \<open>
  The local variables before the scan: the pipe is the first entry of both lists. Then the part
  of the wait between the purge and the end: the scan, the poll unless a handle has triggered,
  and the freeing.
\<close>

definition scan_start :: "env \<Rightarrow> android_wait_set \<Rightarrow> ptr \<Rightarrow> ptr \<Rightarrow> scan" where
  "scan_start E aws al ol =
     \<lparr>triggered_event = OFC_HANDLE_NULL, leastWait = MAX_SCHED_WAIT E, timer_event = OFC_HANDLE_NULL,
      android_handle_list = [\<lparr>pfd = pipe_read aws, poll_events = POLLIN\<rparr>], android_list_ptr = al,
      ofc_handle_list = [OFC_HANDLE_NULL], ofc_list_ptr = ol, eventQueue = [], element_ptrs = []\<rparr>"

definition scan_and_poll ::
  "env \<Rightarrow> interference \<Rightarrow> android_wait_set \<Rightarrow> ptr \<Rightarrow> handle list \<Rightarrow> scan \<Rightarrow> world \<Rightarrow> handle result" where
  "scan_and_poll E others aws queue hs s w = do {
     (s, w) \<leftarrow> scan_handles E hs s w;
     (res, w) \<leftarrow> (if triggered_event s = OFC_HANDLE_NULL then poll_handles E others (pipe_read aws) s w
                 else Some (triggered_event s, w));
     Some (res, free_scan E queue s w)
   }"

definition ofc_waitset_wait_impl :: "env \<Rightarrow> interference \<Rightarrow> handle \<Rightarrow> world \<Rightarrow> handle result" where
  "ofc_waitset_wait_impl E others h w =
     (let (p, w) = ofc_handle_lock E h w in
      if p \<noteq> OFC_NULL then do {
        let (queue, w) = call_addr E (Core QueueCreate) w;
        let (al, w) = call_addr E (Pkg Malloc) w;
        let (ol, w) = call_addr E (Pkg Malloc) w;
        ws \<leftarrow> ws_mem w p;
        aws \<leftarrow> aws_mem w (ws_impl ws);
        w \<leftarrow> purge E (pipe_read aws) w;
        if al = OFC_NULL \<or> ol = OFC_NULL then None
        else do {
          let (r, w) = call E (Core (QueueItems (hHandleQueue ws))) w;
          (res, w) \<leftarrow> scan_and_poll E others aws queue (r_items r) (scan_start E aws al ol) w;
          Some (res, ofc_handle_unlock E h w)
        }
      } else Some (OFC_HANDLE_NULL, w))"

section \<open>Adding a handle to a set\<close>

definition set_app :: "env \<Rightarrow> handle \<Rightarrow> handle \<Rightarrow> handle \<Rightarrow> world \<Rightarrow> world" where
  "set_app E h hApp hSet = call_void E (Pkg (HandleSetApp h hApp hSet))"

definition assoc_switch :: "env \<Rightarrow> handle_type \<Rightarrow> handle \<Rightarrow> handle \<Rightarrow> handle \<Rightarrow> world \<Rightarrow> world option" where
  "assoc_switch E t h hApp hSet w =
     (case t of
        OFC_HANDLE_WAIT_QUEUE \<Rightarrow>
          let (assoc, w) = call_addr E (Core (WaitqGetEvent h)) w
          in Some (set_app E assoc hApp hSet w)
      | OFC_HANDLE_FSRESOLVER_OVERLAPPED \<Rightarrow>
          if cfg_resolver_fs E then do {
            (assoc, w) \<leftarrow> ofc_android_get_resolver_overlapped_event E h w;
            Some (set_app E assoc hApp hSet w)
          } else Some w
      | OFC_HANDLE_FSANDROID_OVERLAPPED \<Rightarrow>
          if cfg_fs_android E then
            let (assoc, w) = call_addr E (Core (FSAndroidOverlappedEvent h)) w
            in Some (set_app E assoc hApp hSet w)
          else Some w
      | OFC_HANDLE_FSSMB_OVERLAPPED \<Rightarrow>
          let (assoc, w) = call_addr E (Core (FileOverlappedEvent h)) w
          in Some (set_app E assoc hApp hSet w)
      | _ \<Rightarrow> Some w)"

definition ofc_waitset_set_assoc_impl ::
  "env \<Rightarrow> handle \<Rightarrow> handle \<Rightarrow> handle \<Rightarrow> world \<Rightarrow> world option" where
  "ofc_waitset_set_assoc_impl E h hApp hSet w =
     (let (r, w) = call E (Pkg (HandleGetType h)) w in assoc_switch E (r_type r) h hApp hSet w)"

text \<open>An event that is already signalled is announced to the set through its pipe.\<close>

definition announce :: "env \<Rightarrow> handle \<Rightarrow> handle \<Rightarrow> world \<Rightarrow> world option" where
  "announce E hSet ev w = do {
     (b, w) \<leftarrow> core_event_test E ev w;
     if b then ofc_waitset_signal_impl E hSet ev w else Some w
   }"

definition add_switch :: "env \<Rightarrow> handle_type \<Rightarrow> handle \<Rightarrow> handle \<Rightarrow> handle \<Rightarrow> world \<Rightarrow> world option" where
  "add_switch E t hSet hApp h w =
     (case t of
        OFC_HANDLE_WAIT_QUEUE \<Rightarrow>
          let (assoc, w) = call_addr E (Core (WaitqGetEvent h)) w;
              w = set_app E assoc hApp hSet w;
              (empty, w) = call_ret E (Core (WaitqEmpty h)) w
          in if empty = 0 then ofc_waitset_signal_impl E hSet assoc w else Some w
      | OFC_HANDLE_EVENT \<Rightarrow> announce E hSet h (set_app E h hApp hSet w)
      | OFC_HANDLE_FSRESOLVER_OVERLAPPED \<Rightarrow>
          if cfg_resolver_fs E then do {
            (assoc, w) \<leftarrow> ofc_android_get_resolver_overlapped_event E h w;
            announce E hSet assoc (set_app E assoc hApp hSet w)
          } else Some w
      | OFC_HANDLE_FSANDROID_OVERLAPPED \<Rightarrow>
          let (assoc, w) = call_addr E (Core (FSAndroidOverlappedEvent h)) w
          in announce E hSet assoc (set_app E assoc hApp hSet w)
      | OFC_HANDLE_FSSMB_OVERLAPPED \<Rightarrow>
          let (assoc, w) = call_addr E (Core (FileOverlappedEvent h)) w
          in announce E hSet assoc (set_app E assoc hApp hSet w)
      | _ \<Rightarrow> Some w)"

definition ofc_waitset_add_impl :: "env \<Rightarrow> handle \<Rightarrow> handle \<Rightarrow> handle \<Rightarrow> world \<Rightarrow> world option" where
  "ofc_waitset_add_impl E hSet hApp h w =
     (let (r, w) = call E (Pkg (HandleGetType h)) w in add_switch E (r_type r) hSet hApp h w)"

section \<open>Blocks and locks\<close>

definition balanced :: "world \<Rightarrow> world \<Rightarrow> bool" where
  "balanced w w' \<longleftrightarrow> same_locks w w' \<and> same_blocks w w'"

lemma balanced_refl [simp]: "balanced w w"
  by (simp add: balanced_def same_locks_def same_blocks_def)

lemma balanced_trans: "balanced a b \<Longrightarrow> balanced b c \<Longrightarrow> balanced a c"
  by (simp add: balanced_def same_locks_def same_blocks_def)

lemmas balanced_defs = balanced_def same_locks_def same_blocks_def

lemma balanced_logged [simp]:
  "balanced (w\<lparr>calls := (Sys c, r) # cs\<rparr>) b \<longleftrightarrow> balanced (w\<lparr>calls := cs\<rparr>) b"
  "balanced (w\<lparr>calls := (Core k, r) # cs\<rparr>) b \<longleftrightarrow> balanced (w\<lparr>calls := cs\<rparr>) b"
  "balanced (w\<lparr>calls := (Pkg (HandleGetType h), r) # cs\<rparr>) b \<longleftrightarrow> balanced (w\<lparr>calls := cs\<rparr>) b"
  "balanced (w\<lparr>calls := (Pkg (HandleSetApp h g g'), r) # cs\<rparr>) b \<longleftrightarrow> balanced (w\<lparr>calls := cs\<rparr>) b"
  "balanced b (w\<lparr>calls := (Sys c, r) # cs\<rparr>) \<longleftrightarrow> balanced b (w\<lparr>calls := cs\<rparr>)"
  "balanced b (w\<lparr>calls := (Core k, r) # cs\<rparr>) \<longleftrightarrow> balanced b (w\<lparr>calls := cs\<rparr>)"
  "balanced b (w\<lparr>calls := (Pkg (HandleGetType h), r) # cs\<rparr>) \<longleftrightarrow> balanced b (w\<lparr>calls := cs\<rparr>)"
  "balanced b (w\<lparr>calls := (Pkg (HandleSetApp h g g'), r) # cs\<rparr>) \<longleftrightarrow> balanced b (w\<lparr>calls := cs\<rparr>)"
  by (simp_all add: balanced_defs)

lemma balanced_ev_mem [simp]:
  "balanced (w\<lparr>ev_mem := m\<rparr>) b \<longleftrightarrow> balanced w b"
  "balanced (w\<lparr>calls := cs, ev_mem := m\<rparr>) b \<longleftrightarrow> balanced (w\<lparr>calls := cs\<rparr>) b"
  "balanced (w\<lparr>ev_mem := m, calls := cs\<rparr>) b \<longleftrightarrow> balanced (w\<lparr>calls := cs\<rparr>) b"
  "balanced b (w\<lparr>ev_mem := m\<rparr>) \<longleftrightarrow> balanced b w"
  "balanced b (w\<lparr>calls := cs, ev_mem := m\<rparr>) \<longleftrightarrow> balanced b (w\<lparr>calls := cs\<rparr>)"
  "balanced b (w\<lparr>ev_mem := m, calls := cs\<rparr>) \<longleftrightarrow> balanced b (w\<lparr>calls := cs\<rparr>)"
  by (simp_all add: balanced_defs)

lemma event_calls_balanced:
  "returns (ofc_event_test_impl E h w) (\<lambda>(b, w'). balanced w w')"
  "returns (ofc_event_get_type_impl E h w) (\<lambda>(t, w'). balanced w w')"
  "returns (ofc_event_reset_impl E h w) (balanced w)"
  by (auto simp: event_defs balanced_defs Let_def wp split: call_splits)

lemma claim_balanced:
  "returns (claim_event (ofc_event_test_impl E) (ofc_event_get_type_impl E) (ofc_event_reset_impl E) h w)
     (\<lambda>(b, w'). balanced w w')"
  unfolding claim_event_def returns_bind
  by (rule returns_mono [OF event_calls_balanced(1)])
     (auto simp: wp split: prod.splits
       intro!: returns_mono [OF event_calls_balanced(2)] returns_mono [OF event_calls_balanced(3)]
       intro: balanced_trans)

lemma socket_calls_balanced:
  "returns (ofc_socket_impl_get_fd E h w) (\<lambda>(d, w'). balanced w w')"
  "returns (ofc_socket_impl_get_event E h w) (\<lambda>(v, w'). balanced w w')"
  "returns (ofc_socket_impl_set_event E h re w) (balanced w)"
  by (auto simp: ofc_socket_impl_get_fd_def ofc_socket_impl_get_event_def ofc_socket_impl_set_event_def
      balanced_defs Let_def wp split: call_splits)

lemma signal_balanced: "returns (ofc_waitset_signal_impl E h ev w) (balanced w)"
  by (rule returns_mono [OF signal_returns]) (simp add: balanced_def)

text \<open>Reading the pipe neither allocates nor locks.\<close>

lemma purge_balanced: "returns (purge E d w) (balanced w)"
proof (rule returns_I)
  fix w'
  assume "purge E d w = Some w'"
  from purge.raw_induct [where P = "\<lambda>E d w w'. balanced w w'", OF _ this] show "balanced w w'"
    by (fastforce simp: call_ret_def call_def Let_def balanced_defs split: if_splits)
qed

lemma PollEvent_balanced:
  assumes "core_forwards E"
  shows "returns (PollEvent E d q w) (\<lambda>(h, w'). balanced w w')"
proof (rule returns_I)
  fix x
  assume "PollEvent E d q w = Some x"
  then have "core_forwards E \<longrightarrow> balanced w (snd x)"
  proof (rule PollEvent.raw_induct [where P = "\<lambda>E d q w x. core_forwards E \<longrightarrow> balanced w (snd x)", rotated],
      goal_cases)
    case (1 poll E d q w x)
    have IH: "returns (poll E d q v) (\<lambda>x. balanced v (snd x))" if "core_forwards E" for v
      using 1(1) that by (blast intro: returns_I)
    show ?case
    proof (rule impI, rule returns_D [OF _ 1(2)], goal_cases)
      case 1
      then show ?case
        by (auto simp: Let_def wp core_forwards_def split: call_splits option.splits
          intro!: returns_mono [OF claim_balanced] returns_mono [OF IH]
          intro: balanced_trans)
    qed
  qed
  then show "case x of (h, w') \<Rightarrow> balanced w w'" using assms by (simp add: case_prod_beta)
qed

text \<open>
  What the scan holds: its two lists and its elements. Every step keeps the rest of the heap as
  it was, so freeing what the scan holds brings back the blocks of before.
\<close>

definition holds :: "scan \<Rightarrow> ptr \<Rightarrow> int" where
  "holds s p = (if android_list_ptr s = p then 1 else 0) + (if ofc_list_ptr s = p then 1 else 0) +
     int (count_list (element_ptrs s) p)"

definition scan_frame :: "scan \<times> world \<Rightarrow> scan \<times> world \<Rightarrow> bool" where
  "scan_frame sw sw' \<longleftrightarrow> same_locks (snd sw) (snd sw') \<and>
     (\<forall>p. blocks (calls (snd sw')) p - holds (fst sw') p = blocks (calls (snd sw)) p - holds (fst sw) p)"

lemma scan_frame_trans: "scan_frame a b \<Longrightarrow> scan_frame b c \<Longrightarrow> scan_frame a c"
  by (simp add: scan_frame_def same_locks_def)

lemma scan_frame_balanced:
  "balanced w v \<Longrightarrow> scan_frame (s, v) sw' \<Longrightarrow> scan_frame (s, w) sw'"
  "balanced w v \<Longrightarrow> holds s' = holds s \<Longrightarrow> scan_frame (s, w) (s', v)"
  by (simp_all add: scan_frame_def balanced_defs)

lemma enqueue_element_frame: "returns (enqueue_element E ev assoc s w) (scan_frame (s, w))"
  by (auto simp: enqueue_element_def scan_frame_def holds_def same_locks_def Let_def wp split: call_splits)

lemma grow_lists_frame: "returns (grow_lists E s w) (scan_frame (s, w))"
  by (auto simp: grow_lists_def scan_frame_def holds_def same_locks_def Let_def wp split: call_splits)

lemma holds_simps [simp]:
  "holds (s\<lparr>triggered_event := h\<rparr>) = holds s" "holds (s\<lparr>leastWait := i\<rparr>) = holds s"
  "holds (s\<lparr>timer_event := h\<rparr>) = holds s" "holds (s\<lparr>leastWait := i, timer_event := h\<rparr>) = holds s"
  "holds (append_pollfd pf h s) = holds s"
  by (simp_all add: holds_def append_pollfd_def fun_eq_iff)

lemma resolver_frame:
  "returns (ofc_android_get_resolver_overlapped_event E h w) (\<lambda>(ev, w'). balanced w w')"
  by (auto simp: ofc_android_get_resolver_overlapped_event_def call_addr_def call_def Let_def wp balanced_defs)

lemma scan_frame_logged [simp]:
  "scan_frame (s, logged (Core k) r w) sw \<longleftrightarrow> scan_frame (s, w) sw"
  "scan_frame (s, logged (Pkg (HandleGetType h)) r w) sw \<longleftrightarrow> scan_frame (s, w) sw"
  "scan_frame sw (s, logged (Core k) r w) \<longleftrightarrow> scan_frame sw (s, w)"
  by (simp_all add: scan_frame_def same_locks_def)

lemma scan_frame_refl [simp]: "holds s' = holds s \<Longrightarrow> scan_frame (s, w) (s', w)"
  by (simp add: scan_frame_def)

text \<open>Composition: a call that is balanced, or a step of the scan, and then the rest.\<close>

lemma scan_after:
  assumes "returns m (\<lambda>(v, w'). balanced w w')" and "\<And>v w'. returns (f v w') (scan_frame (s, w'))"
  shows "returns (do { (v, w') \<leftarrow> m; f v w' }) (scan_frame (s, w))"
  using assms unfolding returns_bind
  by (elim returns_mono) (auto intro: returns_mono scan_frame_balanced(1))

lemma scan_then:
  assumes "returns m (scan_frame (s, w))" and "\<And>s' w'. returns (f s' w') (scan_frame (s', w'))"
  shows "returns (do { (s', w') \<leftarrow> m; f s' w' }) (scan_frame (s, w))"
  using assms unfolding returns_bind
  by (elim returns_mono) (auto intro: returns_mono scan_frame_trans)

lemma scan_core:
  assumes "\<And>v w'. returns (f v w') (scan_frame (s, w'))"
  shows "returns (case call_addr E (Core c) w of (v, w') \<Rightarrow> f v w') (scan_frame (s, w))"
proof -
  let ?r = "respond E (calls w) (Core c)"
  have "scan_frame (s, logged (Core c) ?r w) = scan_frame (s, w)"
    by (auto simp: fun_eq_iff)
  with assms [of "r_addr ?r" "logged (Core c) ?r w"] show ?thesis
    by (simp add: call_addr_def call_def Let_def)
qed

lemma scan_core_ret:
  assumes "\<And>v w'. returns (f v w') (scan_frame (s, w'))"
  shows "returns (case call_ret E (Core c) w of (v, w') \<Rightarrow> f v w') (scan_frame (s, w))"
proof -
  let ?r = "respond E (calls w) (Core c)"
  have "scan_frame (s, logged (Core c) ?r w) = scan_frame (s, w)"
    by (auto simp: fun_eq_iff)
  with assms [of "r_ret ?r" "logged (Core c) ?r w"] show ?thesis
    by (simp add: call_ret_def call_def Let_def)
qed

lemma scan_done: "holds s' = holds s \<Longrightarrow> returns (Some (s', w)) (scan_frame (s, w))"
  by (simp add: returns_Some)

lemma test_or_enqueue_frame:
  assumes "core_forwards E"
  shows "returns (test_or_enqueue E ev h s w) (scan_frame (s, w))"
  using assms
  by (auto simp: test_or_enqueue_def core_forwards_def
      intro!: scan_done scan_after [OF event_calls_balanced(1)] enqueue_element_frame)

lemma scan_switch_frame:
  assumes "core_forwards E"
  shows "returns (scan_switch E t h s w) (scan_frame (s, w))"
  using assms
  by (cases t) (auto simp: scan_switch_def core_forwards_def Let_def
      intro!: scan_done scan_core scan_core_ret
        scan_after [OF event_calls_balanced(1)] scan_after [OF socket_calls_balanced(1)]
        scan_after [OF socket_calls_balanced(2)] scan_after [OF resolver_frame] scan_after [OF claim_balanced]
        scan_then [OF grow_lists_frame] test_or_enqueue_frame [OF assms] enqueue_element_frame)

lemma scan_handles_frame:
  assumes "core_forwards E"
  shows "returns (scan_handles E hs s w) (scan_frame (s, w))"
proof (induction hs arbitrary: s w)
  case Nil
  show ?case by (simp add: returns_Some)
next
  case (Cons h hs)
  have "returns (scan_handle E h s w) (scan_frame (s, w))"
    by (auto simp: scan_handle_def split: call_splits intro: returns_mono [OF scan_switch_frame [OF assms]])
  then show ?case
    by (auto simp: returns_Some intro: scan_then Cons.IH)
qed

lemma queue_walk_fifo: "queue_fifo E \<Longrightarrow> queue_walk E xs = xs"
  by (simp add: queue_walk_def queue_fifo_def map_nth)

lemma poll_handles_balanced:
  assumes "core_forwards E"
  shows "returns (poll_handles E others d s w) (\<lambda>(h, w'). balanced w w')"
  by (auto simp: poll_handles_def Let_def wp split: call_splits
      intro!: returns_mono [OF PollEvent_balanced [OF assms]] returns_mono [OF socket_calls_balanced(3)])

text \<open>Freeing the elements, whatever the order, takes them off the blocks one by one.\<close>

definition free_all :: "env \<Rightarrow> ptr list \<Rightarrow> world \<Rightarrow> world" where
  "free_all E ps w = fold (\<lambda>p. call_void E (Pkg (Free p))) ps w"

lemma free_all_blocks:
  "blocks (calls (free_all E ps w)) q = blocks (calls w) q - int (count_list ps q)"
  "held (calls (free_all E ps w)) h = held (calls w) h"
  "dead (calls (free_all E ps w)) h = dead (calls w) h"
  "same_mem w (free_all E ps w)"
proof (induction ps arbitrary: w)
  case Nil
  { case 1 then show ?case by (simp add: free_all_def) }
  { case 2 then show ?case by (simp add: free_all_def) }
  { case 3 then show ?case by (simp add: free_all_def) }
  { case 4 then show ?case by (simp add: free_all_def) }
next
  case (Cons p ps)
  { case 1 show ?case using Cons(1) [of "call_void E (Pkg (Free p)) w"]
      by (simp add: free_all_def call_void_def call_def Let_def) }
  { case 2 show ?case using Cons(2) [of "call_void E (Pkg (Free p)) w"]
      by (simp add: free_all_def call_void_def call_def Let_def) }
  { case 3 show ?case using Cons(3) [of "call_void E (Pkg (Free p)) w"]
      by (simp add: free_all_def call_void_def call_def Let_def) }
  { case 4 show ?case using Cons(4) [of "call_void E (Pkg (Free p)) w"]
      by (simp add: free_all_def call_void_def call_def Let_def) }
qed

lemma free_scan_blocks:
  assumes "queue_fifo E"
  shows "blocks (calls (free_scan E q s w)) p = blocks (calls w) p - holds s p"
    and "held (calls (free_scan E q s w)) h = held (calls w) h"
    and "dead (calls (free_scan E q s w)) h = dead (calls w) h"
    and "same_mem w (free_scan E q s w)"
  using free_all_blocks(1) [of E "element_ptrs s" w p] free_all_blocks(2) [of E "element_ptrs s" w h]
    free_all_blocks(3) [of E "element_ptrs s" w h] free_all_blocks(4) [of w E "element_ptrs s"]
  by (simp_all add: free_scan_def free_all_def [symmetric] queue_walk_fifo [OF assms] Let_def
      call_void_def call_def holds_def)

lemma free_scan_balanced:
  assumes "queue_fifo E" and "scan_frame (s0, w) (s, w1)" and "balanced w1 w2"
  shows "same_locks w (free_scan E q s w2)"
    and "blocks (calls (free_scan E q s w2)) p = blocks (calls w) p - holds s0 p"
  using assms by (auto simp: free_scan_blocks scan_frame_def balanced_defs)

lemma scan_and_poll_blocks:
  assumes "core_forwards E" and "queue_fifo E"
  shows "returns (scan_and_poll E others aws queue hs s w) (\<lambda>(h, w').
    same_locks w w' \<and> (\<forall>p. blocks (calls w') p = blocks (calls w) p - holds s p))"
  unfolding scan_and_poll_def
  by (auto simp: wp free_scan_balanced [OF assms(2) _ balanced_refl] free_scan_balanced [OF assms(2)]
      intro!: returns_mono [OF scan_handles_frame [OF assms(1)]]
        returns_mono [OF poll_handles_balanced [OF assms(1)]])

lemma wait_balanced:
  assumes "core_forwards E" and "queue_fifo E"
  shows "returns (ofc_waitset_wait_impl E others h w) (\<lambda>(r, w'). balanced w w')"
proof -
  have purge: "returns (purge E d v) (\<lambda>v'. balanced v v')" for d v
    by (rule purge_balanced)
  show ?thesis
    by (auto simp: ofc_waitset_wait_impl_def Let_def wp scan_start_def split: call_splits
        intro!: returns_mono [OF purge] returns_mono [OF scan_and_poll_blocks [OF assms]];
        auto simp: balanced_defs holds_def)
qed

section \<open>What the pipe holds\<close>

text \<open>
  How often a descriptor has been read. The pipe feeds a list: from the \<open>n\<close>-th read on, the
  reads return its handles in order and then fail, as a non-blocking read of an empty pipe does.
\<close>

fun reads :: "history \<Rightarrow> int \<Rightarrow> nat" where
  "reads [] d = 0"
| "reads ((Sys (SysRead d'), r) # cs) d = (if d' = d then Suc (reads cs d) else reads cs d)"
| "reads (_ # cs) d = reads cs d"

definition feeds :: "env \<Rightarrow> int \<Rightarrow> nat \<Rightarrow> handle list \<Rightarrow> bool" where
  "feeds E d n hs \<longleftrightarrow> (\<forall>hist. n \<le> reads hist d \<longrightarrow>
     (let r = respond E hist (Sys (SysRead d)); k = reads hist d - n in
      (k < length hs \<longrightarrow> r_ret r = 8 \<and> r_addr r = hs ! k) \<and> (k = length hs \<longrightarrow> r_ret r = -1)))"

lemma feeds_next: "feeds E d n (h # hs) \<Longrightarrow> feeds E d (Suc n) hs"
  by (fastforce simp: feeds_def Let_def Suc_diff_le dest: spec)

lemma feeds_read:
  assumes "feeds E d (reads (calls w) d) hs"
  obtains r where "call E (Sys (SysRead d)) w = (r, logged (Sys (SysRead d)) r w)"
    and "case hs of [] \<Rightarrow> r_ret r = -1 | h # _ \<Rightarrow> r_ret r = 8 \<and> r_addr r = h"
proof
  let ?r = "respond E (calls w) (Sys (SysRead d))"
  show "call E (Sys (SysRead d)) w = (?r, logged (Sys (SysRead d)) ?r w)"
    by (simp add: call_def Let_def)
  show "case hs of [] \<Rightarrow> r_ret ?r = -1 | h # _ \<Rightarrow> r_ret ?r = 8 \<and> r_addr ?r = h"
    using assms by (cases hs) (auto simp: feeds_def Let_def dest!: spec [of _ "calls w"])
qed

text \<open>The purge takes all of it, the wake-ups too, and changes nothing else.\<close>

lemma purge_feeds:
  assumes "feeds E d (reads (calls w) d) hs"
  shows "yields (purge E d w) (\<lambda>w'. same_mem w w' \<and> balanced w w' \<and>
    reads (calls w') d = reads (calls w) d + length hs + 1 \<and> (\<forall>h. dead (calls w') h = dead (calls w) h))"
  using assms
proof (induction hs arbitrary: w)
  case Nil
  then obtain r where "call E (Sys (SysRead d)) w = (r, logged (Sys (SysRead d)) r w)" "r_ret r = -1"
    by (elim feeds_read) auto
  then show ?case by (subst purge.simps) (simp add: call_ret_def wp)
next
  case (Cons h hs)
  from Cons.prems obtain r where r: "call E (Sys (SysRead d)) w = (r, logged (Sys (SysRead d)) r w)" "r_ret r = 8"
    by (elim feeds_read) auto
  have "feeds E d (reads (calls (logged (Sys (SysRead d)) r w)) d) hs"
    using feeds_next [OF Cons.prems] by simp
  from Cons.IH [OF this] r show ?case
    by (subst purge.simps) (auto simp: call_ret_def elim!: yields_mono)
qed

lemma event_calls_reads:
  "returns (ofc_event_test_impl E h w) (\<lambda>(b, w'). reads (calls w') d = reads (calls w) d)"
  "returns (ofc_event_get_type_impl E h w) (\<lambda>(t, w'). reads (calls w') d = reads (calls w) d)"
  "returns (ofc_event_reset_impl E h w) (\<lambda>w'. reads (calls w') d = reads (calls w) d)"
  by (auto simp: event_defs Let_def wp split: call_splits)

lemma claim_reads:
  "returns (claim_event (ofc_event_test_impl E) (ofc_event_get_type_impl E) (ofc_event_reset_impl E) h w)
     (\<lambda>(b, w'). reads (calls w') d = reads (calls w) d)"
  unfolding claim_event_def returns_bind
  by (rule returns_mono [OF event_calls_reads(1) [where d = d]])
     (auto simp: wp intro!: returns_mono [OF event_calls_reads(2) [where d = d]]
       returns_mono [OF event_calls_reads(3) [where d = d]])

lemma claim_live:
  assumes "core_forwards E" and "event_at E h p e w"
  shows "yields (claim_event (core_event_test E) (core_event_get_type E) (core_event_reset E) h w)
    (\<lambda>(b, w'). b = signalled e \<and> event_frame p (if b then leave_wait e else e) w w' \<and>
       reads (calls w') d = reads (calls w) d)"
proof -
  have "yields (claim_event (ofc_event_test_impl E) (ofc_event_get_type_impl E) (ofc_event_reset_impl E) h w)
    (\<lambda>x. (case x of (b, w') \<Rightarrow> b = signalled e \<and> event_frame p (if b then leave_wait e else e) w w') \<and>
       (case x of (b, w') \<Rightarrow> reads (calls w') d = reads (calls w) d))"
    by (rule yields_and_returns [OF event.claim [OF assms(2)] claim_reads])
  then show ?thesis
    using assms(1) by (auto simp: core_forwards_def elim!: yields_mono)
qed

text \<open>
  The handles in the pipe are looked at in order: those that are not of the queue or whose event
  is not signalled are skipped, the null handle ends the search, and so does the first handle of
  the queue whose event is signalled.
\<close>

fun pipe_result :: "event_element list \<Rightarrow> (handle \<Rightarrow> android_event) \<Rightarrow> handle list \<Rightarrow> handle option" where
  "pipe_result q ev [] = None"
| "pipe_result q ev (h # hs) =
     (if h = OFC_HANDLE_NULL then None
      else if h \<in> hEvent ` set q \<and> signalled (ev h) then Some h
      else pipe_result q ev hs)"

definition assoc_of :: "event_element list \<Rightarrow> handle \<Rightarrow> handle" where
  "assoc_of q h = hAssoc (the (find (\<lambda>e. hEvent e = h) q))"

definition queue_events :: "env \<Rightarrow> event_element list \<Rightarrow> (handle \<Rightarrow> ptr) \<Rightarrow> (handle \<Rightarrow> android_event) \<Rightarrow> world \<Rightarrow> bool" where
  "queue_events E q P ev w \<longleftrightarrow> (\<forall>e\<in>set q. hAssoc e \<noteq> OFC_HANDLE_NULL \<and> event_at E (hEvent e) (P (hEvent e)) (ev (hEvent e)) w)"

lemma event_frame_same:
  assumes "event_at E h p e w" and "event_frame p e w w'"
  shows "same_mem w w'" "balanced w w'"
proof -
  have "w\<lparr>ev_mem := (ev_mem w)(p \<mapsto> e)\<rparr> = w"
    using event_atD(3) [OF assms(1)] by (simp add: fun_upd_idem)
  with assms(2) show "same_mem w w'" "balanced w w'"
    by (simp_all add: event_frame_def balanced_def)
qed

lemma queue_events_same:
  "queue_events E q P ev w \<Longrightarrow> same_mem w w' \<Longrightarrow> (\<And>g. dead (calls w') g = dead (calls w) g) \<Longrightarrow>
   queue_events E q P ev w'"
  by (simp add: queue_events_def event_at_def same_memD)

lemma PollEvent_finds:
  assumes fw: "core_forwards E" and fifo: "queue_fifo E"
  shows "feeds E d (reads (calls w) d) hs \<Longrightarrow> queue_events E q P ev w \<Longrightarrow>
    yields (PollEvent E d q w) (\<lambda>(r, w'). case pipe_result q ev hs of
        None \<Rightarrow> r = OFC_HANDLE_NULL \<and> same_mem w w' \<and> balanced w w'
      | Some h \<Rightarrow> r = assoc_of q h \<and> ev_mem w' = (ev_mem w)(P h \<mapsto> leave_wait (ev h)) \<and> balanced w w')"
proof (induction hs arbitrary: w)
  case Nil
  then obtain r where "call E (Sys (SysRead d)) w = (r, logged (Sys (SysRead d)) r w)" "r_ret r = -1"
    by (elim feeds_read) auto
  then show ?case by (subst PollEvent.simps) (simp add: wp Let_def)
next
  case (Cons h hs)
  from Cons.prems(1) obtain r where
    r: "call E (Sys (SysRead d)) w = (r, logged (Sys (SysRead d)) r w)" "r_ret r = 8" "r_addr r = h"
    by (elim feeds_read) auto
  let ?w = "logged (Sys (SysRead d)) r w"
  have q: "queue_events E q P ev ?w"
    using Cons.prems(2) by (rule queue_events_same) simp_all
  have f: "feeds E d (reads (calls ?w) d) hs"
    using feeds_next [OF Cons.prems(1)] by simp
  show ?case
  proof (cases "h = OFC_HANDLE_NULL")
    case True
    then show ?thesis by (subst PollEvent.simps) (simp add: wp Let_def r)
  next
    case h: False
    show ?thesis
    proof (cases "find (\<lambda>e. hEvent e = h) q")
      case None
      then have "h \<notin> hEvent ` set q" by (auto simp: find_None_iff)
      with Cons.IH [OF f q] h None show ?thesis
        by (subst PollEvent.simps)
           (auto simp: wp Let_def r queue_walk_fifo [OF fifo] elim!: yields_mono split: option.splits)
    next
      case (Some e)
      then have e: "e \<in> set q" "hEvent e = h"
        by (auto simp: find_Some_iff)
      then have at: "event_at E h (P h) (ev h) ?w" and na: "hAssoc e \<noteq> OFC_HANDLE_NULL"
        using q by (auto simp: queue_events_def)
      from claim_live [OF fw at, of d] obtain w1 where
        c: "claim_event (core_event_test E) (core_event_get_type E) (core_event_reset E) h ?w = Some (signalled (ev h), w1)"
        and fr: "event_frame (P h) (if signalled (ev h) then leave_wait (ev h) else ev h) ?w w1"
        and rd: "reads (calls w1) d = reads (calls ?w) d"
        by (auto elim!: yieldsE)
      have mem: "h \<in> hEvent ` set q" using e by blast
      show ?thesis
      proof (cases "signalled (ev h)")
        case True
        then have "ev_mem w1 = (ev_mem w)(P h \<mapsto> leave_wait (ev h))" "balanced w w1"
          using event_frameD(1) [OF fr] fr by (auto simp: event_frame_def balanced_defs)
        with True h mem na Some c show ?thesis
          by (subst PollEvent.simps)
             (simp add: wp Let_def r queue_walk_fifo [OF fifo] assoc_of_def)
      next
        case False
        note s = event_frame_same [OF at, of w1]
        from fr False have m: "same_mem ?w w1" "balanced ?w w1" using s by simp_all
        have "queue_events E q P ev w1"
          using q m(1) event_frameD(2) [OF fr] by (rule queue_events_same)
        moreover have "feeds E d (reads (calls w1) d) hs" using f rd by simp
        ultimately have "yields (PollEvent E d q w1) (\<lambda>(r, w'). case pipe_result q ev hs of
            None \<Rightarrow> r = OFC_HANDLE_NULL \<and> same_mem w1 w' \<and> balanced w1 w'
          | Some h \<Rightarrow> r = assoc_of q h \<and> ev_mem w' = (ev_mem w1)(P h \<mapsto> leave_wait (ev h)) \<and> balanced w1 w')"
          by (rule Cons.IH [rotated])
        moreover have "same_mem w w1" "balanced w w1" using m by simp_all
        ultimately have "yields (PollEvent E d q w1) (\<lambda>(r, w'). case pipe_result q ev hs of
            None \<Rightarrow> r = OFC_HANDLE_NULL \<and> same_mem w w' \<and> balanced w w'
          | Some h \<Rightarrow> r = assoc_of q h \<and> ev_mem w' = (ev_mem w)(P h \<mapsto> leave_wait (ev h)) \<and> balanced w w')"
          using same_memD(2) [of w w1]
          by (elim yields_mono) (auto split: option.splits intro: same_mem_trans balanced_trans)
        with False h Some c show ?thesis
          by (subst PollEvent.simps) (simp add: wp Let_def r queue_walk_fifo [OF fifo])
      qed
    qed
  qed
qed

section \<open>Only a handle of the set\<close>

text \<open>Whatever happens, a wait returns the null handle or a handle of the set.\<close>

definition scan_within :: "handle set \<Rightarrow> scan \<Rightarrow> bool" where
  "scan_within H s \<longleftrightarrow> triggered_event s \<in> H \<and> timer_event s \<in> H \<and>
     set (ofc_handle_list s) \<subseteq> H \<and> hAssoc ` set (eventQueue s) \<subseteq> H \<and>
     length (ofc_handle_list s) = length (android_handle_list s)"

lemma scan_switch_within:
  assumes "scan_within H s" and "h \<in> H"
  shows "returns (scan_switch E t h s w) (\<lambda>(s', w'). scan_within H s')"
proof -
  have q: "returns (enqueue_element E ev h s v) (\<lambda>(s', w'). scan_within H s')" for ev v
    using assms by (auto simp: enqueue_element_def scan_within_def Let_def wp split: call_splits)
  have g: "returns (grow_lists E s v) (\<lambda>(s', w'). scan_within H s')" for v
    using assms by (auto simp: grow_lists_def scan_within_def Let_def wp split: call_splits)
  have a: "scan_within H s' \<Longrightarrow> scan_within H (append_pollfd pf h s')" for s' pf
    using assms(2) by (auto simp: scan_within_def append_pollfd_def)
  have t: "scan_within H (s\<lparr>triggered_event := h\<rparr>)" "scan_within H (s\<lparr>leastWait := i, timer_event := h\<rparr>)" for i
    using assms by (simp_all add: scan_within_def)
  have any: "returns m (\<lambda>x. returns (f x) Q)" if "\<And>x. returns (f x) Q" for m f Q
    using that by (simp add: returns_def)
  show ?thesis
    using assms(1)
    by (cases t) (auto simp: scan_switch_def test_or_enqueue_def Let_def wp(1,3) returns_bind t
        split: call_splits intro!: q any returns_mono [OF g] a)
qed

lemma scan_handles_within:
  assumes "scan_within H s" and "set hs \<subseteq> H"
  shows "returns (scan_handles E hs s w) (\<lambda>(s', w'). scan_within H s')"
  using assms
proof (induction hs arbitrary: s w)
  case Nil
  then show ?case by (simp add: wp)
next
  case (Cons h hs)
  have "returns (scan_handle E h s w) (\<lambda>(s', w'). scan_within H s')"
    using Cons.prems by (auto simp: scan_handle_def split: call_splits intro!: scan_switch_within)
  then show ?case
    using Cons by (auto simp: wp elim!: returns_mono)
qed

lemma queue_walk_subset: "set (queue_walk E q) \<subseteq> set q"
  by (auto simp: queue_walk_def)

lemma PollEvent_within:
  assumes "hAssoc ` set q \<subseteq> H" and "OFC_HANDLE_NULL \<in> H"
  shows "returns (PollEvent E d q w) (\<lambda>(h, w'). h \<in> H)"
proof (rule returns_I)
  fix x
  assume "PollEvent E d q w = Some x"
  then have "hAssoc ` set q \<subseteq> H \<longrightarrow> fst x \<in> H"
  proof (rule PollEvent.raw_induct [where P = "\<lambda>E d q w x. hAssoc ` set q \<subseteq> H \<longrightarrow> fst x \<in> H", rotated],
      goal_cases)
    case (1 poll E d q w x)
    have IH: "returns (poll E d q v) (\<lambda>x. fst x \<in> H)" if "hAssoc ` set q \<subseteq> H" for v
      using 1(1) that by (blast intro: returns_I)
    have any: "returns m (\<lambda>x. returns (f x) Q)" if "\<And>x. returns (f x) Q" for m :: "(bool \<times> world) option" and f Q
      using that by (simp add: returns_def)
    have hit: "hAssoc e \<in> H" if "find P (queue_walk E q) = Some e" "hAssoc ` set q \<subseteq> H" for e P
      using that queue_walk_subset [of E q] by (force simp: find_Some_iff dest: nth_mem)
    show ?case
    proof (rule impI, rule returns_D [OF _ 1(2)], goal_cases)
      case 1
      then show ?case
        using assms(2)
        by (auto simp: Let_def wp(1) returns_bind hit split: call_splits option.splits intro!: any IH)
    qed
  qed
  then show "case x of (h, w') \<Rightarrow> h \<in> H" using assms(1) by (simp add: case_prod_beta)
qed

lemma poll_handles_within:
  assumes "scan_within H s" and "OFC_HANDLE_NULL \<in> H"
  shows "returns (poll_handles E others d s w) (\<lambda>(h, w'). h \<in> H)"
proof -
  have l: "ofc_handle_list s ! i \<in> H" if "i < length (android_handle_list s)" for i
    using assms(1) that by (auto simp: scan_within_def)
  show ?thesis
    using assms
    by (auto simp: poll_handles_def scan_within_def Let_def wp l
        split: call_splits intro!: PollEvent_within returns_mono [OF socket_calls_balanced(3)])
qed

text \<open>
  C15. Whatever the kernel and the other threads do, a wait returns the null handle or a handle
  of the set.
\<close>

theorem wait_returns_member:
  assumes "\<And>hist q. r_items (respond E hist (Core (QueueItems q))) = hs"
    and "ofc_waitset_wait_impl E others h w = Some (r, w')"
  shows "r = OFC_HANDLE_NULL \<or> r \<in> set hs"
proof -
  let ?H = "insert OFC_HANDLE_NULL (set hs)"
  have items: "r_items r = hs" if "answers E (Core (QueueItems q)) v r" for q v r
    using assms(1) that by (simp add: answers_def)
  have scan: "returns (scan_and_poll E others aws queue hs (scan_start E aws al ol) v) (\<lambda>(r, w'). r \<in> ?H)"
    for aws queue al ol v
  proof -
    have "scan_within ?H (scan_start E aws al ol)"
      by (simp add: scan_within_def scan_start_def)
    then have "returns (scan_handles E hs (scan_start E aws al ol) v) (\<lambda>(s', w'). scan_within ?H s')"
      by (rule scan_handles_within) auto
    then show ?thesis
      by (auto simp: scan_and_poll_def wp elim!: returns_mono intro!: returns_mono [OF poll_handles_within [of ?H]])
         (auto simp: scan_within_def)
  qed
  have "returns (ofc_waitset_wait_impl E others h w) (\<lambda>(r, w'). r \<in> ?H)"
    by (auto simp: ofc_waitset_wait_impl_def Let_def wp items split: call_splits
        intro!: returns_mono [OF purge_balanced] returns_mono [OF scan])
  from returns_D [OF this assms(2)] show ?thesis by simp
qed

section \<open>Which handle a wait returns\<close>

text \<open>
  A wait on a live set, up to its scan: the purge empties the pipe, and the scan starts in a
  state that differs from the first one in its history only. \<open>Q\<close> speaks of memory only.
\<close>

lemma wait_live:
  assumes ws: "waitset_at E h p ws aws w"
    and m: "\<And>hist. r_addr (respond E hist (Pkg Malloc)) \<noteq> OFC_NULL"
    and items: "\<And>hist. r_items (respond E hist (Core (QueueItems (hHandleQueue ws)))) = hs"
    and feed: "feeds E (pipe_read aws) (reads (calls w) (pipe_read aws)) old"
    and body: "\<And>queue al ol w1. same_mem w w1 \<Longrightarrow> (\<And>g. dead (calls w1) g = dead (calls w) g) \<Longrightarrow>
      reads (calls w1) (pipe_read aws) = reads (calls w) (pipe_read aws) + length old + 1 \<Longrightarrow>
      yields (scan_and_poll E others aws queue hs (scan_start E aws al ol) w1) (\<lambda>(r, w2). Q r w2)"
    and mem: "\<And>r a b. Q r a \<Longrightarrow> same_mem a b \<Longrightarrow> Q r b"
  shows "yields (ofc_waitset_wait_impl E others h w) (\<lambda>(r, w'). Q r w')"
proof -
  have m': "r_addr r \<noteq> OFC_NULL" if "answers E (Pkg Malloc) v r" for v r
    using m that by (simp add: answers_def)
  have items': "r_items r = hs" if "answers E (Core (QueueItems (hHandleQueue ws))) v r" for v r
    using items that by (simp add: answers_def)
  have rest: "yields (purge E (pipe_read aws) w1) (\<lambda>w2. \<forall>r. answers E (Core (QueueItems (hHandleQueue ws))) w2 r \<longrightarrow>
      yields (scan_and_poll E others aws queue (r_items r) (scan_start E aws al ol)
               (logged (Core (QueueItems (hHandleQueue ws))) r w2))
        (\<lambda>x. yields (case x of (res, w) \<Rightarrow> Some (res, ofc_handle_unlock E h w)) (\<lambda>(r, w'). Q r w')))"
    if "same_mem w w1" "\<And>g. dead (calls w1) g = dead (calls w) g"
      "reads (calls w1) (pipe_read aws) = reads (calls w) (pipe_read aws)" for w1 queue al ol
  proof -
    have fd: "feeds E (pipe_read aws) (reads (calls w1) (pipe_read aws)) old" using feed that(3) by simp
    show ?thesis
    proof (rule yields_mono [OF purge_feeds [OF fd]], intro allI impI, goal_cases)
      case (1 w2 r)
      let ?w = "logged (Core (QueueItems (hHandleQueue ws))) r w2"
      have "same_mem w ?w" using 1(1) that(1) by (auto intro: same_mem_trans)
      from body [OF this, of queue al ol] 1 that(2,3)
      have "yields (scan_and_poll E others aws queue hs (scan_start E aws al ol) ?w) (\<lambda>(r, w2). Q r w2)"
        by simp
      then show ?case
        unfolding items' [OF 1(2)]
        by (rule yields_mono) (auto simp: wp call_void_def call_def Let_def; erule mem; simp)
    qed
  qed
  show ?thesis
    using waitset_atD [OF ws]
    by (auto simp: ofc_waitset_wait_impl_def Let_def wp waitset_at_lock [OF ws] m' split: call_splits
        intro!: yields_mono [OF rest])
qed

lemma scan_and_poll_live:
  assumes fifo: "queue_fifo E"
    and scan: "yields (scan_handles E hs s w) (\<lambda>(s', w').
      if triggered_event s' = OFC_HANDLE_NULL
      then yields (poll_handles E others (pipe_read aws) s' w') (\<lambda>(r, w2). Q r w2)
      else Q (triggered_event s') w')"
    and mem: "\<And>r a b. Q r a \<Longrightarrow> same_mem a b \<Longrightarrow> Q r b"
  shows "yields (scan_and_poll E others aws queue hs s w) (\<lambda>(r, w2). Q r w2)"
proof -
  obtain s' w' where 1: "scan_handles E hs s w = Some (s', w')"
    and 2: "if triggered_event s' = OFC_HANDLE_NULL
      then yields (poll_handles E others (pipe_read aws) s' w') (\<lambda>(r, w2). Q r w2)
      else Q (triggered_event s') w'"
    using scan by (auto elim!: yieldsE)
  have f: "Q r a \<Longrightarrow> Q r (free_scan E queue s' a)" for r a
    using mem free_scan_blocks(4) [OF fifo] by blast
  show ?thesis
    using 1 2 by (auto simp: scan_and_poll_def wp intro: f elim!: yields_mono split: if_splits)
qed

lemma scan_handles_stop: "triggered_event s \<noteq> OFC_HANDLE_NULL \<Longrightarrow> scan_handles E hs s w = Some (s, w)"
  by (cases hs) simp_all

text \<open>Events: the first signalled one triggers and is taken; if none is, all are queued.\<close>

definition events_of :: "env \<Rightarrow> handle list \<Rightarrow> (handle \<Rightarrow> ptr) \<Rightarrow> (handle \<Rightarrow> android_event) \<Rightarrow> world \<Rightarrow> bool" where
  "events_of E hs P ev w \<longleftrightarrow> (\<forall>g\<in>set hs. g \<noteq> OFC_HANDLE_NULL \<and>
     (\<forall>hist. r_type (respond E hist (Pkg (HandleGetType g))) = OFC_HANDLE_EVENT) \<and>
     event_at E g (P g) (ev g) w)"

lemma events_of_same:
  "events_of E hs P ev w \<Longrightarrow> same_mem w w' \<Longrightarrow> (\<And>g. dead (calls w') g = dead (calls w) g) \<Longrightarrow>
   events_of E hs P ev w'"
  by (simp add: events_of_def event_at_def same_memD)

lemma scan_events:
  assumes fw: "core_forwards E" and m: "\<And>hist. r_addr (respond E hist (Pkg Malloc)) \<noteq> OFC_NULL"
  shows "events_of E hs P ev w \<Longrightarrow> triggered_event s = OFC_HANDLE_NULL \<Longrightarrow>
    yields (scan_handles E hs s w) (\<lambda>(s', w').
      reads (calls w') d = reads (calls w) d \<and> (\<forall>g. dead (calls w') g = dead (calls w) g) \<and>
      (case find (\<lambda>g. signalled (ev g)) hs of
        None \<Rightarrow> same_mem w w' \<and> (\<exists>ps. s' = s\<lparr>eventQueue := eventQueue s @ map (\<lambda>g. \<lparr>hEvent = g, hAssoc = g\<rparr>) hs,
                                          element_ptrs := ps\<rparr>)
      | Some g \<Rightarrow> triggered_event s' = g \<and>
          same_mem (w\<lparr>ev_mem := (ev_mem w)(P g \<mapsto> leave_wait (ev g))\<rparr>) w'))"
proof (induction hs arbitrary: s w)
  case Nil
  show ?case by (simp add: wp) (rule exI [of _ "element_ptrs s"], simp)
next
  case (Cons g hs)
  let ?c = "Pkg (HandleGetType g)"
  let ?w = "logged ?c (respond E (calls w) ?c) w"
  have g: "g \<noteq> OFC_HANDLE_NULL" "r_type (respond E (calls w) ?c) = OFC_HANDLE_EVENT"
    and at: "event_at E g (P g) (ev g) ?w"
    using Cons.prems(1) by (simp_all add: events_of_def event_at_def)
  from claim_live [OF fw at, of d] obtain w1 where
    c: "claim_event (core_event_test E) (core_event_get_type E) (core_event_reset E) g ?w = Some (signalled (ev g), w1)"
    and fr: "event_frame (P g) (if signalled (ev g) then leave_wait (ev g) else ev g) ?w w1"
    and rd: "reads (calls w1) d = reads (calls w) d"
    by (auto elim!: yieldsE)
  have dd: "dead (calls w1) k = dead (calls w) k" for k
    using event_frameD(2) [OF fr] by simp
  show ?case
  proof (cases "signalled (ev g)")
    case True
    then have "same_mem (w\<lparr>ev_mem := (ev_mem w)(P g \<mapsto> leave_wait (ev g))\<rparr>) w1"
      using fr by (simp add: event_frame_def)
    with True g c rd dd Cons.prems(2) show ?thesis
      by (simp add: wp scan_handle_def scan_switch_def call_def Let_def scan_handles_stop)
  next
    case False
    with fr have sm: "same_mem w w1" using event_frame_same(1) [OF at, of w1] by simp
    let ?a = "Pkg Malloc"
    let ?p = "r_addr (respond E (calls w1) ?a)"
    let ?w2 = "logged ?a (respond E (calls w1) ?a) w1"
    let ?s = "s\<lparr>eventQueue := eventQueue s @ [\<lparr>hEvent = g, hAssoc = g\<rparr>], element_ptrs := element_ptrs s @ [?p]\<rparr>"
    have step: "scan_handle E g s w = Some (?s, ?w2)"
      using False g c m
      by (simp add: scan_handle_def scan_switch_def enqueue_element_def call_addr_def call_def Let_def)
    have sm2: "same_mem w ?w2" using sm by simp
    have "events_of E hs P ev w" using Cons.prems(1) by (simp add: events_of_def)
    then have "events_of E hs P ev ?w2" using sm2 by (rule events_of_same) (simp add: dd)
    moreover have "triggered_event ?s = OFC_HANDLE_NULL" using Cons.prems(2) by simp
    ultimately have IH: "yields (scan_handles E hs ?s ?w2) (\<lambda>(s', w').
      reads (calls w') d = reads (calls ?w2) d \<and> (\<forall>g. dead (calls w') g = dead (calls ?w2) g) \<and>
      (case find (\<lambda>g. signalled (ev g)) hs of
        None \<Rightarrow> same_mem ?w2 w' \<and> (\<exists>ps. s' = ?s\<lparr>eventQueue := eventQueue ?s @ map (\<lambda>g. \<lparr>hEvent = g, hAssoc = g\<rparr>) hs,
                                          element_ptrs := ps\<rparr>)
      | Some g \<Rightarrow> triggered_event s' = g \<and>
          same_mem (?w2\<lparr>ev_mem := (ev_mem ?w2)(P g \<mapsto> leave_wait (ev g))\<rparr>) w'))"
      by (rule Cons.IH)
    have upd: "same_mem (w\<lparr>ev_mem := (ev_mem w)(q \<mapsto> e)\<rparr>) w'"
      if "same_mem (w1\<lparr>ev_mem := (ev_mem w1)(q \<mapsto> e)\<rparr>) w'" for q e w'
      using that sm by (cases w; cases w1; cases w') (auto simp: same_mem_def)
    have "yields (scan_handles E hs ?s ?w2) (\<lambda>(s', w').
      reads (calls w') d = reads (calls w) d \<and> (\<forall>g. dead (calls w') g = dead (calls w) g) \<and>
      (case find (\<lambda>g. signalled (ev g)) hs of
        None \<Rightarrow> same_mem w w' \<and> (\<exists>ps. s' = s\<lparr>eventQueue := eventQueue s @ map (\<lambda>g. \<lparr>hEvent = g, hAssoc = g\<rparr>) (g # hs),
                                          element_ptrs := ps\<rparr>)
      | Some g \<Rightarrow> triggered_event s' = g \<and>
          same_mem (w\<lparr>ev_mem := (ev_mem w)(P g \<mapsto> leave_wait (ev g))\<rparr>) w'))"
      using rd dd upd same_mem_trans [OF sm2]
      by (intro yields_mono [OF IH]) (auto split: option.splits)
    with step g(1) Cons.prems(2) False show ?thesis
      by (simp add: wp)
  qed
qed
definition self_elements :: "handle list \<Rightarrow> event_element list" where
  "self_elements hs = map (\<lambda>g. \<lparr>hEvent = g, hAssoc = g\<rparr>) hs"

lemma self_elements_simps:
  "hEvent ` set (self_elements hs) = set hs"
  "g \<in> set hs \<Longrightarrow> assoc_of (self_elements hs) g = g"
proof -
  show "hEvent ` set (self_elements hs) = set hs"
    by (force simp: self_elements_def)
  show "assoc_of (self_elements hs) g = g" if "g \<in> set hs"
  proof -
    have "\<exists>e. find (\<lambda>e. hEvent e = g) (self_elements hs) = Some e \<and> hAssoc e = g"
      using that by (induction hs) (auto simp: self_elements_def)
    then show ?thesis by (auto simp: assoc_of_def)
  qed
qed

lemma pipe_result_member: "pipe_result q ev hs = Some g \<Longrightarrow> g \<in> hEvent ` set q"
  by (induction hs) (auto split: if_splits)

theorem wait_on_events:
  assumes fw: "core_forwards E" and fifo: "queue_fifo E"
    and ws: "waitset_at E h p ws aws w"
    and m: "\<And>hist. r_addr (respond E hist (Pkg Malloc)) \<noteq> OFC_NULL"
    and items: "\<And>hist. r_items (respond E hist (Core (QueueItems (hHandleQueue ws)))) = hs"
    and evs: "events_of E hs P ev w"
    and old: "feeds E (pipe_read aws) (reads (calls w) (pipe_read aws)) stale"
    and woken: "\<And>hist. r_ret (respond E hist (Sys (SysPoll [\<lparr>pfd = pipe_read aws, poll_events = POLLIN\<rparr>] (MAX_SCHED_WAIT E)))) > 0"
      "\<And>hist. \<exists>re res. re \<noteq> 0 \<and>
         r_revents (respond E hist (Sys (SysPoll [\<lparr>pfd = pipe_read aws, poll_events = POLLIN\<rparr>] (MAX_SCHED_WAIT E)))) = re # res"
    and others: "\<And>g. g \<in> set hs \<Longrightarrow> others (ev_mem w) (P g) = Some (ev' g)"
    and new: "feeds E (pipe_read aws) (reads (calls w) (pipe_read aws) + length stale + 1) arrived"
  shows "yields (ofc_waitset_wait_impl E others h w) (\<lambda>(r, w').
    case find (\<lambda>g. signalled (ev g)) hs of
      Some g \<Rightarrow> r = g \<and> ev_mem w' = (ev_mem w)(P g \<mapsto> leave_wait (ev g))
    | None \<Rightarrow> (case pipe_result (self_elements hs) ev' arrived of
          Some g \<Rightarrow> r = g \<and> ev_mem w' = (others (ev_mem w))(P g \<mapsto> leave_wait (ev' g))
        | None \<Rightarrow> r = OFC_HANDLE_NULL \<and> ev_mem w' = others (ev_mem w)))"
    (is "yields _ (\<lambda>(r, w'). ?Q r w')")
proof (rule wait_live [OF ws m items old])
  fix queue al ol w1
  assume w1: "same_mem w w1" "\<And>g. dead (calls w1) g = dead (calls w) g"
    and rd: "reads (calls w1) (pipe_read aws) = reads (calls w) (pipe_read aws) + length stale + 1"
  let ?s = "scan_start E aws al ol" and ?d = "pipe_read aws"
  have evs1: "events_of E hs P ev w1" using evs w1 by (rule events_of_same)
  have em: "ev_mem w1 = ev_mem w" using w1(1) by (rule same_memD)
  show "yields (scan_and_poll E others aws queue hs ?s w1) (\<lambda>(r, w2). ?Q r w2)"
  proof (rule scan_and_poll_live [OF fifo])
    have "triggered_event ?s = OFC_HANDLE_NULL" by (simp add: scan_start_def)
    from scan_events [OF fw m evs1 this, of ?d]
    show "yields (scan_handles E hs ?s w1) (\<lambda>(s', w').
      if triggered_event s' = OFC_HANDLE_NULL
      then yields (poll_handles E others ?d s' w') (\<lambda>(r, w2). ?Q r w2)
      else ?Q (triggered_event s') w')"
    proof (rule yields_mono, clarify, goal_cases)
      case (1 s' w')
      show ?case
      proof (cases "find (\<lambda>g. signalled (ev g)) hs")
        case (Some g)
        then have "g \<in> set hs" by (auto simp: find_Some_iff)
        then have "g \<noteq> OFC_HANDLE_NULL" using evs by (simp add: events_of_def)
        with 1 Some same_memD(2) [of "w1\<lparr>ev_mem := (ev_mem w1)(P g \<mapsto> leave_wait (ev g))\<rparr>" w'] em
        show ?thesis by simp
      next
        case None
        let ?q = "self_elements hs"
        obtain ps where s': "s' = ?s\<lparr>eventQueue := ?q, element_ptrs := ps\<rparr>" and sm: "same_mem w1 w'"
          using 1 None by (auto simp: self_elements_def scan_start_def)
        let ?c = "Sys (SysPoll [\<lparr>pfd = ?d, poll_events = POLLIN\<rparr>] (MAX_SCHED_WAIT E))"
        let ?r = "respond E (calls w') ?c"
        let ?w = "logged ?c ?r w'\<lparr>ev_mem := others (ev_mem w')\<rparr>"
        obtain re res where re: "re \<noteq> 0" "r_revents ?r = re # res" using woken(2) by blast
        have poll: "poll_handles E others ?d s' w' = PollEvent E ?d ?q ?w"
          using woken(1) [of "calls w'"] re
          by (simp add: s' scan_start_def poll_handles_def call_def Let_def)
        have ew: "ev_mem w' = ev_mem w" using sm em same_memD(2) by metis
        have "queue_events E ?q P ev' ?w"
          using evs others 1 w1(2)
          by (auto simp: queue_events_def self_elements_def events_of_def event_at_def ew)
        moreover have "feeds E ?d (reads (calls ?w) ?d) arrived" using new rd 1 by simp
        ultimately have "yields (PollEvent E ?d ?q ?w) (\<lambda>(r, w2). case pipe_result ?q ev' arrived of
            None \<Rightarrow> r = OFC_HANDLE_NULL \<and> same_mem ?w w2 \<and> balanced ?w w2
          | Some g \<Rightarrow> r = assoc_of ?q g \<and> ev_mem w2 = (ev_mem ?w)(P g \<mapsto> leave_wait (ev' g)) \<and> balanced ?w w2)"
          by (rule PollEvent_finds [OF fw fifo, rotated])
        then have "yields (PollEvent E ?d ?q ?w) (\<lambda>(r, w2). ?Q r w2)"
          using None pipe_result_member [of ?q ev' arrived] self_elements_simps [where hs = hs] ew
          by (elim yields_mono) (auto split: option.splits dest: same_memD(2))
        then show ?thesis using s' poll by (simp add: scan_start_def)
      qed
    qed
  next
    fix r a b
    assume Q: "?Q r a" and sm: "same_mem a b"
    show "?Q r b" using Q unfolding same_memD(2) [OF sm] .
  qed
next
  fix r a b
  assume Q: "?Q r a" and sm: "same_mem a b"
  show "?Q r b" using Q unfolding same_memD(2) [OF sm] .
qed

text \<open>
  Timers: the first one that has expired triggers; otherwise the scan keeps the least wait time
  below the bound, and the first timer that has it.
\<close>

definition timers_of :: "env \<Rightarrow> handle list \<Rightarrow> (handle \<Rightarrow> int) \<Rightarrow> bool" where
  "timers_of E hs t \<longleftrightarrow> (\<forall>g\<in>set hs. g \<noteq> OFC_HANDLE_NULL \<and>
     (\<forall>hist. r_type (respond E hist (Pkg (HandleGetType g))) = OFC_HANDLE_TIMER \<and>
             r_ret (respond E hist (Core (TimerGetWaitTime g))) = t g))"

fun least_timer :: "(handle \<Rightarrow> int) \<Rightarrow> handle list \<Rightarrow> int \<times> handle \<Rightarrow> int \<times> handle" where
  "least_timer t [] b = b"
| "least_timer t (g # gs) b = least_timer t gs (if t g < fst b then (t g, g) else b)"

lemma Min_insert_two: "finite S \<Longrightarrow> Min (insert a (insert b S)) = Min (insert (min a b) S)" for a b :: int
  by (cases "S = {}") (simp_all add: min.assoc)

lemma least_timer_spec:
  "fst (least_timer t hs b) = Min (insert (fst b) (t ` set hs)) \<and>
   (fst (least_timer t hs b) = fst b \<longrightarrow> snd (least_timer t hs b) = snd b) \<and>
   (fst (least_timer t hs b) < fst b \<longrightarrow>
      find (\<lambda>g. t g = fst (least_timer t hs b)) hs = Some (snd (least_timer t hs b)))"
proof (induction hs arbitrary: b)
  case (Cons g hs)
  let ?b = "if t g < fst b then (t g, g) else b"
  have le: "fst (least_timer t hs ?b) \<le> fst ?b"
    using Cons.IH [of ?b] by simp
  have "fst (least_timer t hs ?b) = Min (insert (fst b) (t ` set (g # hs)))"
    using Cons.IH [of ?b] Min_insert_two [of "t ` set hs" "fst b" "t g"] by (simp add: min_def)
  then show ?case
    using Cons.IH [of ?b] le by (auto split: if_splits)
qed simp

lemma scan_timers:
  "timers_of E hs t \<Longrightarrow> triggered_event s = OFC_HANDLE_NULL \<Longrightarrow>
   yields (scan_handles E hs s w) (\<lambda>(s', w'). same_mem w w' \<and>
     (case find (\<lambda>g. t g = 0) hs of
       None \<Rightarrow> (let b = least_timer t hs (leastWait s, timer_event s)
                in s' = s\<lparr>leastWait := fst b, timer_event := snd b\<rparr>)
     | Some g \<Rightarrow> triggered_event s' = g))"
proof (induction hs arbitrary: s w)
  case Nil
  then show ?case by (simp add: wp Let_def)
next
  case (Cons g hs)
  let ?c = "Pkg (HandleGetType g)" and ?k = "Core (TimerGetWaitTime g)"
  let ?w = "logged ?c (respond E (calls w) ?c) w"
  let ?w' = "logged ?k (respond E (calls ?w) ?k) ?w"
  have g: "g \<noteq> OFC_HANDLE_NULL" "r_type (respond E (calls w) ?c) = OFC_HANDLE_TIMER"
    "r_ret (respond E (calls ?w) ?k) = t g"
    using Cons.prems(1) by (simp_all add: timers_of_def)
  let ?s = "if t g < leastWait s then s\<lparr>leastWait := t g, timer_event := g\<rparr> else s"
  have step: "scan_handle E g s w = Some (if t g = 0 then s\<lparr>triggered_event := g\<rparr> else ?s, ?w')"
    using g by (simp add: scan_handle_def scan_switch_def call_ret_def call_def Let_def)
  show ?case
  proof (cases "t g = 0")
    case True
    with step g(1) Cons.prems(2) show ?thesis by (simp add: wp scan_handles_stop)
  next
    case False
    have "timers_of E hs t" "triggered_event ?s = OFC_HANDLE_NULL"
      using Cons.prems by (simp_all add: timers_of_def)
    from Cons.IH [OF this, of ?w'] have "yields (scan_handles E hs ?s ?w') (\<lambda>(s', w'). same_mem w w' \<and>
     (case find (\<lambda>g. t g = 0) (g # hs) of
       None \<Rightarrow> (let b = least_timer t (g # hs) (leastWait s, timer_event s)
                in s' = s\<lparr>leastWait := fst b, timer_event := snd b\<rparr>)
     | Some g \<Rightarrow> triggered_event s' = g))"
      using False by (elim yields_mono) (auto simp: Let_def split: option.splits)
    with step False g(1) Cons.prems(2) show ?thesis by (simp add: wp)
  qed
qed

theorem wait_on_timers:
  assumes fifo: "queue_fifo E"
    and ws: "waitset_at E h p ws aws w"
    and m: "\<And>hist. r_addr (respond E hist (Pkg Malloc)) \<noteq> OFC_NULL"
    and items: "\<And>hist. r_items (respond E hist (Core (QueueItems (hHandleQueue ws)))) = hs"
    and timers: "timers_of E hs t"
    and old: "feeds E (pipe_read aws) (reads (calls w) (pipe_read aws)) stale"
    and T: "T = Min (insert (MAX_SCHED_WAIT E) (t ` set hs))"
    and expires: "\<And>hist. r_ret (respond E hist (Sys (SysPoll [\<lparr>pfd = pipe_read aws, poll_events = POLLIN\<rparr>] T))) = 0"
  shows "yields (ofc_waitset_wait_impl E others h w) (\<lambda>(r, w'). case find (\<lambda>g. t g = 0) hs of
      Some g \<Rightarrow> r = g
    | None \<Rightarrow> if T < MAX_SCHED_WAIT E then find (\<lambda>g. t g = T) hs = Some r else r = OFC_HANDLE_NULL)"
proof (rule wait_live [OF ws m items old])
  fix queue al ol w1
  assume w1: "same_mem w w1"
  let ?s = "scan_start E aws al ol" and ?d = "pipe_read aws"
  have "triggered_event ?s = OFC_HANDLE_NULL" by (simp add: scan_start_def)
  note scan = scan_timers [OF timers this, of w1]
  note spec = least_timer_spec [of t hs "(MAX_SCHED_WAIT E, OFC_HANDLE_NULL)"]
  show "yields (scan_and_poll E others aws queue hs ?s w1) (\<lambda>(r, w2). case find (\<lambda>g. t g = 0) hs of
      Some g \<Rightarrow> r = g
    | None \<Rightarrow> if T < MAX_SCHED_WAIT E then find (\<lambda>g. t g = T) hs = Some r else r = OFC_HANDLE_NULL)"
  proof (rule scan_and_poll_live [OF fifo yields_mono [OF scan]], clarify, goal_cases)
    case (1 s' w')
    show ?case
    proof (cases "find (\<lambda>g. t g = 0) hs")
      case (Some g)
      then have "g \<noteq> OFC_HANDLE_NULL" using timers by (auto simp: timers_of_def find_Some_iff)
      with 1 Some show ?thesis by simp
    next
      case None
      define b where "b = least_timer t hs (MAX_SCHED_WAIT E, OFC_HANDLE_NULL)"
      have spec': "fst b = T" "T = MAX_SCHED_WAIT E \<longrightarrow> snd b = OFC_HANDLE_NULL"
        "T < MAX_SCHED_WAIT E \<longrightarrow> find (\<lambda>g. t g = T) hs = Some (snd b)"
        using spec unfolding b_def fst_conv snd_conv T [symmetric] by (blast, metis, metis)
      have s': "s' = ?s\<lparr>leastWait := T, timer_event := snd b\<rparr>"
        using 1 None spec T by (simp add: Let_def b_def scan_start_def)
      have r: "r_ret (respond E hist (Sys (SysPoll [\<lparr>pfd = ?d, poll_events = POLLIN\<rparr>] T))) = 0" for hist
        by (rule expires)
      have nz: "snd b \<noteq> OFC_HANDLE_NULL" if "T < MAX_SCHED_WAIT E"
        using spec that timers T by (auto simp: b_def timers_of_def find_Some_iff)
      have "T \<le> MAX_SCHED_WAIT E" using T by simp
      then have ge: "T = MAX_SCHED_WAIT E \<or> T < MAX_SCHED_WAIT E" by linarith
      have "poll_handles E others ?d s' w' = Some (if snd b \<noteq> OFC_HANDLE_NULL then snd b else OFC_HANDLE_NULL,
          logged (Sys (SysPoll [\<lparr>pfd = ?d, poll_events = POLLIN\<rparr>] T))
            (respond E (calls w') (Sys (SysPoll [\<lparr>pfd = ?d, poll_events = POLLIN\<rparr>] T))) w'
            \<lparr>ev_mem := others (ev_mem w')\<rparr>)"
        using r by (simp add: s' scan_start_def poll_handles_def call_def Let_def)
      then show ?thesis
        using None spec' nz ge by (auto simp: s' scan_start_def wp)
    qed
  qed simp
qed simp

text \<open>Sockets: every one gets an entry in the poll list, with its descriptor and its events.\<close>

definition sockets_of :: "env \<Rightarrow> handle list \<Rightarrow> (handle \<Rightarrow> handle) \<Rightarrow> (handle \<Rightarrow> ptr) \<Rightarrow>
    (handle \<Rightarrow> socket_impl) \<Rightarrow> world \<Rightarrow> bool" where
  "sockets_of E hs I P sk w \<longleftrightarrow> (\<forall>g\<in>set hs. g \<noteq> OFC_HANDLE_NULL \<and> s_events (sk g) \<noteq> None \<and>
     (\<forall>hist. r_type (respond E hist (Pkg (HandleGetType g))) = OFC_HANDLE_SOCKET \<and>
             r_addr (respond E hist (Core (SocketGetImpl g))) = I g) \<and>
     socket_at E (I g) (P g) (sk g) w)"

definition poll_entry :: "socket_impl \<Rightarrow> pollfd" where
  "poll_entry s = \<lparr>pfd = s_socket s, poll_events = the (s_events s)\<rparr>"

lemma sockets_of_same:
  "sockets_of E hs I P sk w \<Longrightarrow> same_mem w w' \<Longrightarrow> (\<And>g. dead (calls w') g = dead (calls w) g) \<Longrightarrow>
   sockets_of E hs I P sk w'"
  by (simp add: sockets_of_def socket_at_def same_memD)

lemma socket_calls_mem:
  "returns (ofc_socket_impl_get_fd E h w) (\<lambda>(d, w'). same_mem w w' \<and> (\<forall>g. dead (calls w') g = dead (calls w) g))"
  "returns (ofc_socket_impl_get_event E h w) (\<lambda>(v, w'). same_mem w w' \<and> (\<forall>g. dead (calls w') g = dead (calls w) g))"
  by (auto simp: ofc_socket_impl_get_fd_def ofc_socket_impl_get_event_def Let_def wp split: call_splits)

lemma scan_one_socket:
  assumes g: "sockets_of E [g] I P sk w"
    and m: "\<And>hist q. r_addr (respond E hist (Pkg (Realloc q))) \<noteq> OFC_NULL"
  shows "yields (scan_handle E g s w) (\<lambda>(s', w'). same_mem w w' \<and> (\<forall>k. dead (calls w') k = dead (calls w) k) \<and>
     (\<exists>al ol. s' = append_pollfd (poll_entry (sk g)) g (s\<lparr>android_list_ptr := al, ofc_list_ptr := ol\<rparr>)))"
proof -
  have at: "socket_at E (I g) (P g) (sk g) v" if "same_mem w v" "\<And>k. dead (calls v) k = dead (calls w) k" for v
    using g that by (simp add: sockets_of_def socket_at_def same_memD)
  obtain ev where ev: "s_events (sk g) = Some ev" using g by (auto simp: sockets_of_def)
  have fd: "yields (ofc_socket_impl_get_fd E (I g) v) (\<lambda>(d, v'). d = s_socket (sk g) \<and> same_mem w v' \<and>
      (\<forall>k. dead (calls v') k = dead (calls w) k))" if "same_mem w v" "\<And>k. dead (calls v) k = dead (calls w) k" for v
    using yields_and_returns [OF get_fd_live [OF at [OF that]] socket_calls_mem(1)]
    by (rule yields_mono) (use that in \<open>auto intro: same_mem_trans\<close>)
  have evt: "yields (ofc_socket_impl_get_event E (I g) v) (\<lambda>(x, v'). x = ev \<and> same_mem w v' \<and>
      (\<forall>k. dead (calls v') k = dead (calls w) k))" if "same_mem w v" "\<And>k. dead (calls v) k = dead (calls w) k" for v
    using yields_and_returns [OF get_event_live [OF at [OF that] ev] socket_calls_mem(2)]
    by (rule yields_mono) (use that in \<open>auto intro: same_mem_trans\<close>)
  have ty: "r_type r = OFC_HANDLE_SOCKET" if "answers E (Pkg (HandleGetType g)) v r" for v r
    using g that by (simp add: sockets_of_def answers_def)
  have im: "r_addr r = I g" if "answers E (Core (SocketGetImpl g)) v r" for v r
    using g that by (simp add: sockets_of_def answers_def)
  have m': "r_addr r \<noteq> OFC_NULL" if "answers E (Pkg (Realloc q)) v r" for q v r
    using m that by (simp add: answers_def)
  show ?thesis
    by (auto simp: scan_handle_def scan_switch_def grow_lists_def Let_def wp ty im m' poll_entry_def ev
        split: call_splits intro!: yields_mono [OF fd] yields_mono [OF evt]; rule exI, rule exI, rule refl)
qed

lemma scan_sockets:
  assumes m: "\<And>hist q. r_addr (respond E hist (Pkg (Realloc q))) \<noteq> OFC_NULL"
  shows "sockets_of E hs I P sk w \<Longrightarrow> triggered_event s = OFC_HANDLE_NULL \<Longrightarrow>
    yields (scan_handles E hs s w) (\<lambda>(s', w'). same_mem w w' \<and> (\<forall>k. dead (calls w') k = dead (calls w) k) \<and>
      (\<exists>al ol. s' = s\<lparr>android_handle_list := android_handle_list s @ map (\<lambda>g. poll_entry (sk g)) hs,
        android_list_ptr := al, ofc_handle_list := ofc_handle_list s @ hs, ofc_list_ptr := ol\<rparr>))"
proof (induction hs arbitrary: s w)
  case Nil
  show ?case
    by (simp add: wp) (rule exI [of _ "android_list_ptr s"], rule exI [of _ "ofc_list_ptr s"], simp)
next
  case (Cons g hs)
  have g0: "g \<noteq> OFC_HANDLE_NULL" and one: "sockets_of E [g] I P sk w" and all: "sockets_of E hs I P sk w"
    using Cons.prems(1) by (simp_all add: sockets_of_def)
  from scan_one_socket [OF one m, of s] obtain al ol w1 where
    1: "scan_handle E g s w = Some (append_pollfd (poll_entry (sk g)) g (s\<lparr>android_list_ptr := al, ofc_list_ptr := ol\<rparr>), w1)"
      "same_mem w w1" "\<And>k. dead (calls w1) k = dead (calls w) k"
    by (auto elim!: yieldsE)
  let ?s = "append_pollfd (poll_entry (sk g)) g (s\<lparr>android_list_ptr := al, ofc_list_ptr := ol\<rparr>)"
  have "triggered_event ?s = OFC_HANDLE_NULL" using Cons.prems(2) by (simp add: append_pollfd_def)
  from Cons.IH [OF sockets_of_same [OF all 1(2,3)] this]
  have "yields (scan_handles E hs ?s w1) (\<lambda>(s', w'). same_mem w w' \<and> (\<forall>k. dead (calls w') k = dead (calls w) k) \<and>
      (\<exists>al ol. s' = s\<lparr>android_handle_list := android_handle_list s @ map (\<lambda>g. poll_entry (sk g)) (g # hs),
        android_list_ptr := al, ofc_handle_list := ofc_handle_list s @ (g # hs), ofc_list_ptr := ol\<rparr>))"
    using same_mem_trans [OF 1(2)] 1(3) by (elim yields_mono) (auto simp: append_pollfd_def)
  with 1(1) g0 Cons.prems(2) show ?case by (simp add: wp)
qed

lemma first_ready_append: "first_ready (0 # res) = Suc (first_ready res)"
  by simp

lemma first_ready_nth: "first_ready res < length res \<Longrightarrow> res ! first_ready res \<noteq> 0"
  by (induction res) auto

lemma padded: "length rs = n \<Longrightarrow> map (\<lambda>i. if i < length rs then rs ! i else 0) [0..<n] = rs"
  by (auto intro: nth_equalityI)

lemma poll_handles_ready:
  assumes c: "call E (Sys (SysPoll (android_handle_list s) (leastWait s))) w = (r, w0)"
    and r: "r_ret r > 0" "length (r_revents r) = length (android_handle_list s)"
    and i: "i = first_ready (r_revents r)" "0 < i" "i < length (android_handle_list s)"
  shows "poll_handles E others d s w = do {
      let (impl, w) = call_addr E (Core (SocketGetImpl (ofc_handle_list s ! i))) (w0\<lparr>ev_mem := others (ev_mem w0)\<rparr>);
      w \<leftarrow> ofc_socket_impl_set_event E impl (r_revents r ! i) w;
      Some (ofc_handle_list s ! i, w) }"
proof -
  have "r_revents r ! i \<noteq> 0" using first_ready_nth [of "r_revents r"] r(2) i(1,3) by simp
  with r(1) i show ?thesis
    by (simp add: poll_handles_def c padded [OF r(2)] Let_def)
qed

theorem wait_on_sockets:
  assumes fifo: "queue_fifo E"
    and ws: "waitset_at E h p ws aws w"
    and m: "\<And>hist. r_addr (respond E hist (Pkg Malloc)) \<noteq> OFC_NULL"
      "\<And>hist q. r_addr (respond E hist (Pkg (Realloc q))) \<noteq> OFC_NULL"
    and items: "\<And>hist. r_items (respond E hist (Core (QueueItems (hHandleQueue ws)))) = hs"
    and socks: "sockets_of E hs I P sk w"
    and old: "feeds E (pipe_read aws) (reads (calls w) (pipe_read aws)) stale"
    and L: "L = \<lparr>pfd = pipe_read aws, poll_events = POLLIN\<rparr> # map (\<lambda>g. poll_entry (sk g)) hs"
    and ready: "\<And>hist. r_ret (respond E hist (Sys (SysPoll L (MAX_SCHED_WAIT E)))) > 0"
      "\<And>hist. r_revents (respond E hist (Sys (SysPoll L (MAX_SCHED_WAIT E)))) = 0 # res"
      "length res = length hs" "first_ready res < length hs"
  shows "yields (ofc_waitset_wait_impl E others h w) (\<lambda>(r, w').
    r = hs ! first_ready res \<and>
    sock_mem w' = (sock_mem w)(P r \<mapsto> (sk r)\<lparr>s_revents := Some (res ! first_ready res)\<rparr>))"
proof (rule wait_live [OF ws m(1) items old])
  fix queue al ol w1
  assume w1: "same_mem w w1" "\<And>g. dead (calls w1) g = dead (calls w) g"
  let ?s = "scan_start E aws al ol" and ?d = "pipe_read aws" and ?g = "hs ! first_ready res"
  have t0: "triggered_event ?s = OFC_HANDLE_NULL" by (simp add: scan_start_def)
  note scan = scan_sockets [OF m(2) sockets_of_same [OF socks w1] t0]
  show "yields (scan_and_poll E others aws queue hs ?s w1) (\<lambda>(r, w2). r = hs ! first_ready res \<and>
    sock_mem w2 = (sock_mem w)(P r \<mapsto> (sk r)\<lparr>s_revents := Some (res ! first_ready res)\<rparr>))"
  proof (rule scan_and_poll_live [OF fifo yields_mono [OF scan]], clarify, goal_cases)
    case (1 s' w' al' ol')
    let ?c = "Sys (SysPoll L (MAX_SCHED_WAIT E))" and ?k = "Core (SocketGetImpl ?g)"
    let ?w = "logged ?c (respond E (calls w') ?c) w'\<lparr>ev_mem := others (ev_mem w')\<rparr>"
    let ?w2 = "logged ?k (respond E (calls ?w) ?k) ?w"
    have g: "?g \<in> set hs" using ready(4) by simp
    have "sockets_of E hs I P sk w'"
      using sockets_of_same [OF sockets_of_same [OF socks w1] 1(1)] 1(2) by simp
    with g have at: "socket_at E (I ?g) (P ?g) (sk ?g) ?w2" and impl: "r_addr (respond E (calls ?w) ?k) = I ?g"
      by (auto simp: sockets_of_def socket_at_def)
    have sm: "sock_mem w' = sock_mem w" using same_memD(1) [OF same_mem_trans [OF w1(1) 1(1)]] .
    let ?s' = "?s\<lparr>android_handle_list := android_handle_list ?s @ map (\<lambda>g. poll_entry (sk g)) hs,
          android_list_ptr := al', ofc_handle_list := ofc_handle_list ?s @ hs, ofc_list_ptr := ol'\<rparr>"
    have aL: "android_handle_list ?s' = L" "leastWait ?s' = MAX_SCHED_WAIT E" "ofc_handle_list ?s' = 0 # hs"
      by (simp_all add: L scan_start_def)
    have lenL: "length L = Suc (length hs)" by (simp add: L)
    have cl: "call E ?c w' = (respond E (calls w') ?c, logged ?c (respond E (calls w') ?c) w')"
      by (simp add: call_def Let_def)
    have rv: "r_revents (respond E (calls w') ?c) = 0 # res" "r_ret (respond E (calls w') ?c) > 0"
      using ready(1,2) by blast+
    have "poll_handles E others ?d ?s' w' = do {
        let (impl, w) = call_addr E (Core (SocketGetImpl (ofc_handle_list ?s' ! Suc (first_ready res)))) ?w;
        w \<leftarrow> ofc_socket_impl_set_event E impl (r_revents (respond E (calls w') ?c) ! Suc (first_ready res)) w;
        Some (ofc_handle_list ?s' ! Suc (first_ready res), w) }"
      using poll_handles_ready [of E ?s' w', unfolded aL, OF cl, of "Suc (first_ready res)" others ?d] rv ready(3,4) lenL
      by (simp add: aL)
    then have "poll_handles E others ?d ?s' w' = do {
        w \<leftarrow> ofc_socket_impl_set_event E (I ?g) (res ! first_ready res) ?w2;
        Some (?g, w) }"
      using impl rv(1) by (simp add: aL(3) call_addr_def call_def Let_def)
    with set_event_live [OF at, of "res ! first_ready res"] sm t0 show ?case
      by (auto simp: wp scan_start_def elim!: yields_mono)
  qed (simp add: same_memD)
qed (simp add: same_memD)

section \<open>All operations of a wait set\<close>

text \<open>
  The environment whose dispatchers call the functions of this layer, as OpenFiles' core does.
\<close>

definition linked :: "env \<Rightarrow> env" where
  "linked E = E\<lparr>core_event_test := ofc_event_test_impl E, core_event_get_type := ofc_event_get_type_impl E,
     core_event_reset := ofc_event_reset_impl E, core_event_set := ofc_event_set_impl E,
     core_waitset_wake := ofc_waitset_wake_impl E\<rparr>"

lemma call_cong: "respond E' = respond E \<Longrightarrow> call E' = call E"
  "respond E' = respond E \<Longrightarrow> call_addr E' = call_addr E"
  "respond E' = respond E \<Longrightarrow> call_ret E' = call_ret E"
  "respond E' = respond E \<Longrightarrow> call_void E' = call_void E"
  by (simp_all add: fun_eq_iff call_addr_def call_ret_def call_void_def call_def)

lemma event_impl_cong:
  assumes "respond E' = respond E"
  shows "ofc_event_test_impl E' = ofc_event_test_impl E" "ofc_event_get_type_impl E' = ofc_event_get_type_impl E"
    "ofc_event_reset_impl E' = ofc_event_reset_impl E" "ofc_event_set_impl E' = ofc_event_set_impl E"
    "ofc_waitset_wake_impl E' = ofc_waitset_wake_impl E"
  by (intro ext; unfold event_defs ofc_waitset_wake_impl_def call_cong [OF assms]; rule refl)+

lemma linked_forwards: "core_forwards (linked E)"
proof -
  have "respond (linked E) = respond E" by (simp add: linked_def)
  from event_impl_cong [OF this] show ?thesis by (simp add: core_forwards_def) (simp add: linked_def)
qed

datatype waitset_op =
    WsCreate ptr
  | WsDestroy ptr
  | WsSignal handle handle
  | WsWake handle
  | WsWait handle interference
  | WsAssoc handle handle handle
  | WsAdd handle handle handle

fun waitset_step :: "env \<Rightarrow> waitset_op \<Rightarrow> world \<Rightarrow> world option" where
  "waitset_step E (WsCreate p) w = ofc_waitset_create_impl E p w"
| "waitset_step E (WsDestroy p) w = ofc_waitset_destroy_impl E p w"
| "waitset_step E (WsSignal h ev) w = ofc_waitset_signal_impl E h ev w"
| "waitset_step E (WsWake h) w = ofc_waitset_wake_impl E h w"
| "waitset_step E (WsWait h others) w = map_option snd (ofc_waitset_wait_impl E others h w)"
| "waitset_step E (WsAssoc h app st) w = ofc_waitset_set_assoc_impl E h app st w"
| "waitset_step E (WsAdd st app h) w = ofc_waitset_add_impl E st app h w"

lemma free_scan_locks: "held (calls (free_scan E q s w)) h = held (calls w) h"
  using free_all_blocks(2) [of E "queue_walk E (element_ptrs s)" w h]
  by (simp add: free_scan_def free_all_def [symmetric] Let_def call_void_def call_def)

lemma wait_locks:
  assumes "core_forwards E"
  shows "returns (ofc_waitset_wait_impl E others h w) (\<lambda>(r, w'). same_locks w w')"
proof -
  have "returns (scan_and_poll E others aws queue hs s v) (\<lambda>(r, v'). same_locks v v')" for aws queue hs s v
    by (auto simp: scan_and_poll_def wp same_locks_def free_scan_locks scan_frame_def balanced_defs
        intro!: returns_mono [OF scan_handles_frame [OF assms]] returns_mono [OF poll_handles_balanced [OF assms]])
  note sp = returns_mono [OF this]
  show ?thesis
    by (auto simp: ofc_waitset_wait_impl_def Let_def wp split: call_splits
        intro!: returns_mono [OF purge_balanced] sp; auto simp: balanced_defs)
qed

lemma set_app_balanced [simp]: "balanced (set_app E h a g w) b \<longleftrightarrow> balanced w b"
    "balanced b (set_app E h a g w) \<longleftrightarrow> balanced b w"
  by (auto simp: set_app_def call_void_def call_def balanced_defs Let_def)

text \<open>The handlers of an added handle are balanced calls one after the other.\<close>

lemma balanced_after:
  assumes "returns m (\<lambda>(v, w'). balanced w w')" and "\<And>v w'. returns (f v w') (balanced w')"
  shows "returns (do { (v, w') \<leftarrow> m; f v w' }) (balanced w)"
  using assms unfolding returns_bind
  by (elim returns_mono) (auto intro: returns_mono balanced_trans)

lemma balanced_core:
  assumes "\<And>v w'. returns (f v w') (balanced w')"
  shows "returns (case call_addr E (Core c) w of (v, w') \<Rightarrow> f v w') (balanced w)"
proof -
  let ?r = "respond E (calls w) (Core c)"
  have b: "balanced (logged (Core c) ?r w) = balanced w" by (simp add: fun_eq_iff)
  show ?thesis
    using assms [of "r_addr ?r" "logged (Core c) ?r w"] by (simp add: call_addr_def call_def Let_def b)
qed

lemma balanced_core_ret:
  assumes "\<And>n w'. returns (f n w') (balanced w')"
  shows "returns (case call_ret E (Core c) w of (n, w') \<Rightarrow> f n w') (balanced w)"
proof -
  let ?r = "respond E (calls w) (Core c)"
  have b: "balanced (logged (Core c) ?r w) = balanced w" by (simp add: fun_eq_iff)
  show ?thesis
    using assms [of "r_ret ?r" "logged (Core c) ?r w"] by (simp add: call_ret_def call_def Let_def b)
qed

lemma balanced_set_app_eq: "balanced (set_app E h a g w) = balanced w"
  by (simp add: fun_eq_iff)

lemma announce_balanced:
  assumes "core_forwards E"
  shows "returns (announce E hSet ev w) (balanced w)"
  using assms
  by (auto simp: announce_def core_forwards_def returns_Some
      intro!: balanced_after [OF event_calls_balanced(1)] signal_balanced)

lemma announce_set_app:
  assumes "core_forwards E"
  shows "returns (announce E hSet ev (set_app E h a g w)) (balanced w)"
  using announce_balanced [OF assms, of hSet ev "set_app E h a g w"] by (simp add: balanced_set_app_eq)

lemma signal_set_app:
  "returns (case call_ret E (Core c) (set_app E h a g w) of (n, w') \<Rightarrow>
     if n = 0 then ofc_waitset_signal_impl E hSet ev w' else Some w') (balanced w)"
  using balanced_core_ret [of "\<lambda>n w'. if n = 0 then ofc_waitset_signal_impl E hSet ev w' else Some w'"
      E c "set_app E h a g w"]
  by (simp add: balanced_set_app_eq returns_Some signal_balanced)

lemma assoc_switch_balanced: "returns (assoc_switch E t h hApp hSet w) (balanced w)"
  by (cases t) (auto simp: assoc_switch_def returns_Some Let_def
      intro!: balanced_core balanced_core_ret balanced_after [OF resolver_frame])

lemma add_switch_balanced:
  assumes "core_forwards E"
  shows "returns (add_switch E t hSet hApp h w) (balanced w)"
  by (cases t) (auto simp: add_switch_def returns_Some Let_def
      intro!: balanced_core balanced_after [OF resolver_frame] announce_set_app [OF assms] signal_set_app)

lemma add_balanced:
  assumes "core_forwards E"
  shows "returns (ofc_waitset_add_impl E hSet hApp h w) (balanced w)"
    and "returns (ofc_waitset_set_assoc_impl E h hApp hSet w) (balanced w)"
  by (auto simp: ofc_waitset_add_impl_def ofc_waitset_set_assoc_impl_def split: call_splits
      intro!: returns_mono [OF add_switch_balanced [OF assms]] returns_mono [OF assoc_switch_balanced])

lemma waitset_step_locks:
  assumes "core_forwards E"
  shows "returns (waitset_step E op w) (same_locks w)"
proof (cases op)
  case (WsWait h others)
  have "returns (ofc_waitset_wait_impl E others h w) (\<lambda>x. same_locks w (snd x))"
    by (rule returns_mono [OF wait_locks [OF assms]]) auto
  with WsWait show ?thesis by (simp add: wp)
next
  case (WsAssoc h app st)
  then show ?thesis using returns_mono [OF add_balanced(2) [OF assms]] by (simp add: balanced_def)
next
  case (WsAdd st app h)
  then show ?thesis using returns_mono [OF add_balanced(1) [OF assms]] by (simp add: balanced_def)
qed (auto simp: ofc_waitset_create_impl_def ofc_waitset_destroy_impl_def ofc_waitset_signal_impl_def
    ofc_waitset_wake_impl_def set_nonblock_def same_locks_def Let_def wp split: call_splits)

interpretation waitset: lock_discipline "waitset_step (linked E)"
  by unfold_locales (rule waitset_step_locks [OF linked_forwards])

theorem waitset_unlocked:
  assumes "\<forall>h. held (calls w) h = 0" and "run_ops (waitset_step (linked E)) ops w = Some w'"
  shows "held (calls w') h = 0"
  using assms by (rule waitset.run_unlocked)

text \<open>
  C16. A wait that returns leaves every block and every handle lock as it found them: the queue
  elements, the two lists and the lock on the set are given back on every path.
\<close>

theorem wait_gives_back:
  assumes "queue_fifo E" and "ofc_waitset_wait_impl (linked E) others h w = Some (r, w')"
  shows "blocks (calls w') p = blocks (calls w) p \<and> held (calls w') g = held (calls w) g"
proof -
  have "queue_fifo (linked E)" using assms(1) by (simp add: queue_fifo_def linked_def)
  from returns_D [OF wait_balanced [OF linked_forwards this] assms(2)] show ?thesis
    by (simp add: balanced_defs)
qed

lemma same_blocks_trans: "same_blocks a b \<Longrightarrow> same_blocks b c \<Longrightarrow> same_blocks a c"
  by (simp add: same_blocks_def)

text \<open>An event that is signalled when it is added is not missed: its handle is in the pipe.\<close>

text \<open>
  C26. Adding an event to a wait set links it to the set and, when it is already signalled,
  writes its handle to the pipe of the set, so that a later poll sees it.
\<close>

theorem add_announces:
  assumes fw: "core_forwards E" and at: "event_at E h p e w"
    and ws: "waitset_at E hSet q ws aws w"
    and ty: "\<And>hist. r_type (respond E hist (Pkg (HandleGetType h))) = OFC_HANDLE_EVENT"
  shows "yields (ofc_waitset_add_impl E hSet hApp h w) (\<lambda>w'.
    written (calls w') (pipe_write aws) = written (calls w) (pipe_write aws) @ (if signalled e then [h] else []) \<and>
    Pkg (HandleSetApp h hApp hSet) \<in> fst ` set (calls w') \<and> same_mem w w' \<and> balanced w w')"
proof -
  let ?c = "Pkg (HandleGetType h)" and ?k = "Pkg (HandleSetApp h hApp hSet)"
  let ?w = "logged ?c (respond E (calls w) ?c) w"
  let ?w1 = "logged ?k (respond E (calls ?w) ?k) ?w"
  have at1: "event_at E h p e ?w1" using at by (simp add: event_at_def)
  have written: "returns (ofc_event_test_impl E h v) (\<lambda>(b, v'). written (calls v') d = written (calls v) d \<and>
      (?k \<in> fst ` set (calls v) \<longrightarrow> ?k \<in> fst ` set (calls v')))" for v d
    by (auto simp: event_defs Let_def wp split: call_splits)
  obtain w2 where test: "ofc_event_test_impl E h ?w1 = Some (signalled e, w2)"
    and fr: "event_frame p e ?w1 w2" and wr: "written (calls w2) (pipe_write aws) = written (calls w) (pipe_write aws)"
    and k: "?k \<in> fst ` set (calls w2)"
    using yields_and_returns [OF event_test_live [OF at1] written [of ?w1 "pipe_write aws"]] by (auto elim!: yieldsE)
  have "same_mem ?w1 w2" "balanced ?w1 w2" using event_frame_same [OF at1 fr] by auto
  then have s2: "same_mem w w2" "balanced w w2" by simp_all
  have ws2: "waitset_at E hSet q ws aws w2"
    using ws same_memD(3,4) [OF s2(1)] event_frameD(2) [OF fr] by (simp add: waitset_at_def)
  have sk: "returns (ofc_waitset_signal_impl E hSet h w2) (\<lambda>w'. ?k \<in> fst ` set (calls w'))"
    using k by (auto simp: ofc_waitset_signal_impl_def Let_def wp split: call_splits)
  have eq: "ofc_waitset_add_impl E hSet hApp h w =
      (if signalled e then ofc_waitset_signal_impl E hSet h w2 else Some w2)"
    using ty fw test
    by (simp add: ofc_waitset_add_impl_def add_switch_def announce_def set_app_def core_forwards_def
        call_void_def call_def Let_def)
  show ?thesis
  proof (cases "signalled e")
    case True
    from yields_and_returns [OF signal_live [OF ws2] sk] show ?thesis
      unfolding eq if_P [OF True]
      by (rule yields_mono) (use True s2 wr in \<open>auto simp: balanced_def intro: same_mem_trans same_locks_trans
        same_blocks_trans\<close>)
  next
    case False
    then show ?thesis using s2 wr k by (simp add: eq wp)
  qed
qed

section \<open>Instances\<close>

text \<open>
  The wait set of \<open>demo_world\<close>, whose queue holds \<open>hs\<close>, all of one type; every timer's wait
  time is its handle's number. The pipe holds \<open>stale\<close> when the wait starts and \<open>arrived\<close> when
  the poll returns \<open>n\<close> with \<open>rv\<close>.
\<close>

definition wait_env :: "handle list \<Rightarrow> handle_type \<Rightarrow> handle list \<Rightarrow> handle list \<Rightarrow> int \<Rightarrow> (16 word) list \<Rightarrow> env" where
  "wait_env hs ty stale arrived n rv = linked (ref_env (\<lambda>hist c. case c of
     Pkg Malloc \<Rightarrow> no_resp\<lparr>r_addr := 256\<rparr>
   | Pkg (Realloc q) \<Rightarrow> no_resp\<lparr>r_addr := 256\<rparr>
   | Pkg (HandleLock h) \<Rightarrow> no_resp\<lparr>r_addr := (if h = 7 then 64 else if h = 8 then 96 else 0)\<rparr>
   | Pkg (HandleGetType h) \<Rightarrow> no_resp\<lparr>r_type := ty\<rparr>
   | Core (QueueItems q) \<Rightarrow> no_resp\<lparr>r_items := hs\<rparr>
   | Core (TimerGetWaitTime g) \<Rightarrow> no_resp\<lparr>r_ret := uint g\<rparr>
   | Core (SocketGetImpl g) \<Rightarrow> no_resp\<lparr>r_addr := g\<rparr>
   | Sys (SysRead d) \<Rightarrow>
       (let k = reads hist d in
        if k < length stale then no_resp\<lparr>r_ret := 8, r_addr := stale ! k\<rparr>
        else if length stale < k \<and> k - Suc (length stale) < length arrived
        then no_resp\<lparr>r_ret := 8, r_addr := arrived ! (k - Suc (length stale))\<rparr>
        else no_resp\<lparr>r_ret := -1\<rparr>)
   | Sys (SysPoll l t) \<Rightarrow> no_resp\<lparr>r_ret := n, r_revents := rv\<rparr>
   | _ \<Rightarrow> no_resp))"

lemma respond_wait [simp]:
  "respond (wait_env hs ty stale arrived n rv) hist (Pkg Malloc) = no_resp\<lparr>r_addr := 256\<rparr>"
  "respond (wait_env hs ty stale arrived n rv) hist (Pkg (Realloc q)) = no_resp\<lparr>r_addr := 256\<rparr>"
  "respond (wait_env hs ty stale arrived n rv) hist (Pkg (HandleLock h)) =
     no_resp\<lparr>r_addr := (if h = 7 then 64 else if h = 8 then 96 else 0)\<rparr>"
  "respond (wait_env hs ty stale arrived n rv) hist (Pkg (HandleGetType h)) = no_resp\<lparr>r_type := ty\<rparr>"
  "respond (wait_env hs ty stale arrived n rv) hist (Core (QueueItems qu)) = no_resp\<lparr>r_items := hs\<rparr>"
  "respond (wait_env hs ty stale arrived n rv) hist (Core (TimerGetWaitTime g)) = no_resp\<lparr>r_ret := uint g\<rparr>"
  "respond (wait_env hs ty stale arrived n rv) hist (Core (SocketGetImpl g)) = no_resp\<lparr>r_addr := g\<rparr>"
  "respond (wait_env hs ty stale arrived n rv) hist (Sys (SysPoll l t)) = no_resp\<lparr>r_ret := n, r_revents := rv\<rparr>"
  by (simp_all add: wait_env_def linked_def)

lemma wait_env_ok:
  "core_forwards (wait_env hs ty stale arrived n rv)" "queue_fifo (wait_env hs ty stale arrived n rv)"
  "MAX_SCHED_WAIT (wait_env hs ty stale arrived n rv) = 1000"
  "locks_to (wait_env hs ty stale arrived n rv) 7 64" "locks_to (wait_env hs ty stale arrived n rv) 8 96"
  by (simp add: wait_env_def linked_forwards)
     (simp_all add: wait_env_def linked_def queue_fifo_def ref_env_def locks_to_def no_resp_def)

lemma wait_env_feeds:
  "feeds (wait_env hs ty stale arrived n rv) d 0 stale"
  "feeds (wait_env hs ty stale arrived n rv) d (length stale + 1) arrived"
  by (auto simp: feeds_def wait_env_def linked_def no_resp_def Let_def)

lemma demo_reads [simp]: "reads (calls (demo_world ty b)) d = 0"
  by (simp add: demo_world_def)

lemma demo_waitset: "waitset_at (wait_env hs ty stale arrived n rv) 8 96 \<lparr>ws_impl = 128, hHandleQueue = 0\<rparr>
    \<lparr>pipe_read = 5, pipe_write = 6\<rparr> (demo_world t b)"
  by (rule demo_at(2) [OF wait_env_ok(5)])

text \<open>One automatic event, not signalled; while the thread sleeps another one sets it.\<close>

definition set_it :: interference where
  "set_it m = m(64 \<mapsto> \<lparr>eventType = OFC_EVENT_AUTO, signalled = True\<rparr>)"

theorem wait_on_events_witness:
  "yields (ofc_waitset_wait_impl (wait_env [7] OFC_HANDLE_EVENT [OFC_HANDLE_NULL] [7] 1 [POLLIN]) set_it 8
      (demo_world OFC_EVENT_AUTO False))
     (\<lambda>(r, w'). r = 7 \<and> ev_mem w' 64 = Some \<lparr>eventType = OFC_EVENT_AUTO, signalled = False\<rparr>)"
proof -
  let ?E = "wait_env [7] OFC_HANDLE_EVENT [OFC_HANDLE_NULL] [7] 1 [POLLIN]"
  let ?ev = "\<lambda>g::handle. \<lparr>eventType = OFC_EVENT_AUTO, signalled = False\<rparr>"
  let ?ev' = "\<lambda>g::handle. \<lparr>eventType = OFC_EVENT_AUTO, signalled = True\<rparr>"
  have ev: "events_of ?E [7] (\<lambda>_. 64) ?ev (demo_world OFC_EVENT_AUTO False)"
    using demo_at(1) [OF wait_env_ok(4)] by (simp add: events_of_def)
  have f: "feeds ?E (pipe_read \<lparr>pipe_read = 5, pipe_write = 6\<rparr>)
      (reads (calls (demo_world OFC_EVENT_AUTO False)) (pipe_read \<lparr>pipe_read = 5, pipe_write = 6\<rparr>)) [OFC_HANDLE_NULL]"
    "feeds ?E (pipe_read \<lparr>pipe_read = 5, pipe_write = 6\<rparr>)
      (reads (calls (demo_world OFC_EVENT_AUTO False)) (pipe_read \<lparr>pipe_read = 5, pipe_write = 6\<rparr>) +
       length [OFC_HANDLE_NULL] + 1) [7]"
    by (use wait_env_feeds(1) in simp) (use wait_env_feeds(2) [where stale = "[OFC_HANDLE_NULL]"] in simp)
  show ?thesis
    by (rule yields_mono [OF wait_on_events [OF wait_env_ok(1,2) demo_waitset _ _ ev f(1) _ _ _ f(2),
        where others = set_it and ev' = ?ev']])
       (auto simp: no_resp_def set_it_def self_elements_def leave_wait_def)
qed

theorem wait_on_timers_witness:
  "yields (ofc_waitset_wait_impl (wait_env [30, 20] OFC_HANDLE_TIMER [] [] 0 []) (\<lambda>m. m) 8
      (demo_world OFC_EVENT_AUTO False)) (\<lambda>(r, w'). r = 20)"
proof -
  let ?E = "wait_env [30, 20] OFC_HANDLE_TIMER [] [] 0 []"
  have t: "timers_of ?E [30, 20] uint"
    by (simp add: timers_of_def no_resp_def)
  have f: "feeds ?E (pipe_read \<lparr>pipe_read = 5, pipe_write = 6\<rparr>)
      (reads (calls (demo_world OFC_EVENT_AUTO False)) (pipe_read \<lparr>pipe_read = 5, pipe_write = 6\<rparr>)) []"
    using wait_env_feeds(1) by simp
  have T: "20 = Min (insert (MAX_SCHED_WAIT ?E) (uint ` set [30, 20 :: handle]))"
    by (simp add: wait_env_ok)
  show ?thesis
    by (rule yields_mono [OF wait_on_timers [OF wait_env_ok(2) demo_waitset _ _ t f T]])
       (auto simp: no_resp_def wait_env_ok)
qed

definition socket_world :: world where
  "socket_world = (demo_world OFC_EVENT_AUTO False)\<lparr>sock_mem := [64 \<mapsto> idle_socket]\<rparr>"

theorem wait_on_sockets_witness:
  "yields (ofc_waitset_wait_impl (wait_env [7] OFC_HANDLE_SOCKET [] [] 1 [0, POLLIN]) (\<lambda>m. m) 8 socket_world)
     (\<lambda>(r, w'). r = 7 \<and> sock_mem w' 64 = Some (idle_socket\<lparr>s_revents := Some POLLIN\<rparr>))"
proof -
  let ?E = "wait_env [7] OFC_HANDLE_SOCKET [] [] 1 [0, POLLIN]"
  have ws: "waitset_at ?E 8 96 \<lparr>ws_impl = 128, hHandleQueue = 0\<rparr> \<lparr>pipe_read = 5, pipe_write = 6\<rparr> socket_world"
    using demo_waitset [of "[7]" OFC_HANDLE_SOCKET "[]" "[]" 1 "[0, POLLIN]" OFC_EVENT_AUTO False]
    by (simp add: waitset_at_def socket_world_def)
  have s: "sockets_of ?E [7] (\<lambda>g. g) (\<lambda>_. 64) (\<lambda>_. idle_socket) socket_world"
    using wait_env_ok(4)
    by (simp add: sockets_of_def socket_at_def socket_world_def demo_world_def no_resp_def idle_socket_def)
  have f: "feeds ?E (pipe_read \<lparr>pipe_read = 5, pipe_write = 6\<rparr>)
      (reads (calls socket_world) (pipe_read \<lparr>pipe_read = 5, pipe_write = 6\<rparr>)) []"
    using wait_env_feeds(1) by (simp add: socket_world_def)
  show ?thesis
    by (rule yields_mono [OF wait_on_sockets [OF wait_env_ok(2) ws _ _ _ s f refl, where res = "[POLLIN]"]])
       (auto simp: no_resp_def)
qed

text \<open>A run that needs no laws: the set has one wait queue, with a message in it.\<close>

lemma message_run:
  "yields (ofc_waitset_wait_impl (wait_env [7] OFC_HANDLE_WAIT_QUEUE [] [] 0 []) (\<lambda>m. m) 8
     (demo_world OFC_EVENT_AUTO False)) (\<lambda>(r, w'). r = 7)"
proof -
  have f: "feeds (wait_env [7] OFC_HANDLE_WAIT_QUEUE [] [] 0 []) (pipe_read \<lparr>pipe_read = 5, pipe_write = 6\<rparr>)
      (reads (calls (demo_world OFC_EVENT_AUTO False)) (pipe_read \<lparr>pipe_read = 5, pipe_write = 6\<rparr>)) []"
    using wait_env_feeds(1) by simp
  show ?thesis
  proof (rule wait_live [OF demo_waitset _ _ f])
    fix queue al ol w1
    show "yields (scan_and_poll (wait_env [7] OFC_HANDLE_WAIT_QUEUE [] [] 0 []) (\<lambda>m. m) \<lparr>pipe_read = 5, pipe_write = 6\<rparr>
      queue [7] (scan_start (wait_env [7] OFC_HANDLE_WAIT_QUEUE [] [] 0 []) \<lparr>pipe_read = 5, pipe_write = 6\<rparr> al ol) w1)
      (\<lambda>(r, w2). r = 7)"
      by (simp add: scan_and_poll_def scan_handle_def scan_switch_def scan_start_def call_def call_ret_def
        call_addr_def Let_def no_resp_def wp wait_env_def linked_def)
  qed (simp_all add: no_resp_def)
qed

theorem wait_returns_member_witness:
  "\<exists>r w'. ofc_waitset_wait_impl (wait_env [7] OFC_HANDLE_WAIT_QUEUE [] [] 0 []) (\<lambda>m. m) 8
      (demo_world OFC_EVENT_AUTO False) = Some (r, w') \<and> (r = OFC_HANDLE_NULL \<or> r \<in> {7})"
proof -
  have items: "r_items (respond (wait_env [7] OFC_HANDLE_WAIT_QUEUE [] [] 0 []) hist (Core (QueueItems q))) = [7]"
    for hist q by (simp add: no_resp_def)
  from message_run obtain r w' where run: "ofc_waitset_wait_impl (wait_env [7] OFC_HANDLE_WAIT_QUEUE [] [] 0 [])
      (\<lambda>m. m) 8 (demo_world OFC_EVENT_AUTO False) = Some (r, w')"
    by (auto elim!: yieldsE)
  from wait_returns_member [OF items run] run show ?thesis by auto
qed

lemma linked_linked: "linked (linked E) = linked E"
proof -
  have "respond (linked E) = respond E" by (simp add: linked_def)
  from event_impl_cong [OF this] show ?thesis
    unfolding linked_def [of "linked E"] by (simp add: linked_def)
qed

theorem wait_gives_back_witness:
  "\<exists>r w'. ofc_waitset_wait_impl (wait_env [7] OFC_HANDLE_WAIT_QUEUE [] [] 0 []) (\<lambda>m. m) 8
      (demo_world OFC_EVENT_AUTO False) = Some (r, w') \<and> blocks (calls w') 256 = 0 \<and> held (calls w') 8 = 0"
proof -
  let ?E = "wait_env [7] OFC_HANDLE_WAIT_QUEUE [] [] 0 []"
  have E: "linked ?E = ?E" by (simp only: wait_env_def linked_linked)
  from message_run obtain r w' where run: "ofc_waitset_wait_impl ?E
      (\<lambda>m. m) 8 (demo_world OFC_EVENT_AUTO False) = Some (r, w')"
    by (auto elim!: yieldsE)
  then have "ofc_waitset_wait_impl (linked ?E) (\<lambda>m. m) 8 (demo_world OFC_EVENT_AUTO False) = Some (r, w')"
    unfolding E .
  from wait_gives_back [OF wait_env_ok(2) this] run show ?thesis
    by (auto simp: demo_world_def)
qed

theorem waitset_unlocked_witness:
  "\<exists>w'. run_ops (waitset_step (linked wake_env)) [WsWake 8, WsSignal 8 7] (demo_world OFC_EVENT_AUTO False) = Some w' \<and>
    held (calls w') 8 = 0"
proof -
  have init: "\<forall>h. held (calls (demo_world OFC_EVENT_AUTO False)) h = 0"
    by (simp add: demo_world_def)
  have "run_ops (waitset_step (linked wake_env)) [WsWake 8, WsSignal 8 7] (demo_world OFC_EVENT_AUTO False) \<noteq> None"
    by (simp add: ofc_waitset_wake_impl_def ofc_waitset_signal_impl_def call_addr_def call_void_def call_def
      linked_def wake_env_def demo_world_def no_resp_def Let_def)
  then obtain w' where run:
    "run_ops (waitset_step (linked wake_env)) [WsWake 8, WsSignal 8 7] (demo_world OFC_EVENT_AUTO False) = Some w'"
    by auto
  with waitset_unlocked [OF init run] show ?thesis by blast
qed

theorem add_announces_witness:
  "yields (ofc_waitset_add_impl (wait_env [] OFC_HANDLE_EVENT [] [] 0 []) 8 99 7 (demo_world OFC_EVENT_AUTO True))
     (\<lambda>w'. written (calls w') 6 = [7] \<and> Pkg (HandleSetApp 7 99 8) \<in> fst ` set (calls w'))"
  by (rule yields_mono [OF add_announces [OF wait_env_ok(1) demo_at(1) [OF wait_env_ok(4)] demo_waitset]])
     (auto simp: no_resp_def demo_world_def)

end
