(* ===== verification/OFC_Thread.thy ===== *)
theory OFC_Thread
  imports OFC_Waitset
begin

text \<open>
  Threads (src/src/thread\_android.c): a structure shared by the thread and its creator, and
  freed by the one that outlives the other. What the new thread does before its creator goes on,
  and what other threads do to the structures meanwhile, are arguments. The lemmas follow a
  joinable and a detached thread through their lives, show how a deletion reaches a thread that
  waits, and that structures sit in allocated blocks.

  The options \<open>__cyg_profile\<close> and \<open>OFC_INCLUDE_JNI\<close>, which call a profiler and a Java library,
  are off. A thread's name and instance number are not used by the source.
\<close>

section \<open>Operations\<close>

type_synonym thread_interference = "(ptr \<rightharpoonup> android_thread) \<Rightarrow> (ptr \<rightharpoonup> android_thread)"

text \<open>
  The function a thread runs. Other threads act while the scheduler function runs, and again
  when the notification has been sent.
\<close>

definition ofc_thread_launch ::
  "env \<Rightarrow> thread_interference \<Rightarrow> thread_interference \<Rightarrow> ptr \<Rightarrow> world \<Rightarrow> world option" where
  "ofc_thread_launch E others others' p w = do {
     t \<leftarrow> thr_mem w p;
     let (ret, w) = call_ret E (Core (RunScheduler (scheduler t) (t_handle t) (t_context t))) w;
     let w = w\<lparr>thr_mem := others (thr_mem w)\<rparr>;
     t \<leftarrow> thr_mem w p;
     let t = t\<lparr>t_ret := Some (word_of_int ret)\<rparr>;
     let w = w\<lparr>thr_mem := (thr_mem w)(p \<mapsto> t)\<rparr>;
     w \<leftarrow> (if hNotify t \<noteq> OFC_HANDLE_NULL then core_event_set E (hNotify t) w else Some w);
     let w = w\<lparr>thr_mem := others' (thr_mem w)\<rparr>;
     t \<leftarrow> thr_mem w p;
     Some (if t_detachstate t = OFC_THREAD_DETACH
           then let w = call_void E (Pkg (HandleDestroy (t_handle t))) w;
                    w = call_void E (Pkg (Free p)) w
                in w\<lparr>thr_mem := (thr_mem w)(p := None)\<rparr>
           else w)
   }"

text \<open>
  \<open>started\<close> is what the new thread does until its creator reads the handle. That read follows
  the pointer once more.
\<close>

definition ofc_thread_create_impl ::
  "env \<Rightarrow> (ptr \<Rightarrow> world \<Rightarrow> world option) \<Rightarrow> ptr \<Rightarrow> ptr \<Rightarrow> detachstate \<Rightarrow> handle \<Rightarrow> world \<Rightarrow> handle result" where
  "ofc_thread_create_impl E started sched context detach notify w =
     (let (p, w) = call_addr E (Pkg Malloc) w in
      if p \<noteq> OFC_NULL then do {
        let (h, w) = call_addr E (Pkg (HandleCreate OFC_HANDLE_THREAD p)) w;
        let t = \<lparr>t_thread = None, scheduler = sched, t_context = context, t_ret = None, deleteMe = False,
                 t_handle = h, t_detachstate = detach, t_wait_set = OFC_HANDLE_NULL, hNotify = notify\<rparr>;
        let w = w\<lparr>thr_mem := (thr_mem w)(p \<mapsto> t)\<rparr>;
        let w = call_void E (Pthread AttrInit) w;
        let w = (if detach = OFC_THREAD_DETACH then call_void E (Pthread AttrSetDetached) w
                 else if detach = OFC_THREAD_JOIN then call_void E (Pthread AttrSetJoinable) w
                 else w);
        let (r, w) = call E (Pthread (ThreadCreate p)) w;
        if r_ret r \<noteq> 0 then
          let w = call_void E (Pkg (HandleDestroy (t_handle t))) w;
              w = call_void E (Pkg (Free p)) w
          in Some (OFC_HANDLE_NULL, w\<lparr>thr_mem := (thr_mem w)(p := None)\<rparr>)
        else do {
          let w = w\<lparr>thr_mem := (thr_mem w)(p \<mapsto> t\<lparr>t_thread := Some (r_addr r)\<rparr>)\<rparr>;
          w \<leftarrow> started p w;
          t \<leftarrow> thr_mem w p;
          Some (t_handle t, w)
        }
      } else Some (OFC_HANDLE_NULL, w))"

definition ofc_thread_set_waitset_impl :: "env \<Rightarrow> handle \<Rightarrow> handle \<Rightarrow> world \<Rightarrow> world option" where
  "ofc_thread_set_waitset_impl E hThread wait_set w =
     (let (p, w) = ofc_handle_lock E hThread w in
      if p \<noteq> OFC_NULL then do {
        t \<leftarrow> thr_mem w p;
        let w = w\<lparr>thr_mem := (thr_mem w)(p \<mapsto> t\<lparr>t_wait_set := wait_set\<rparr>)\<rparr>;
        Some (ofc_handle_unlock E hThread w)
      } else Some w)"

definition ofc_thread_delete_impl :: "env \<Rightarrow> handle \<Rightarrow> world \<Rightarrow> world option" where
  "ofc_thread_delete_impl E hThread w =
     (let (p, w) = ofc_handle_lock E hThread w in
      if p \<noteq> OFC_NULL then do {
        t \<leftarrow> thr_mem w p;
        let w = w\<lparr>thr_mem := (thr_mem w)(p \<mapsto> t\<lparr>deleteMe := True\<rparr>)\<rparr>;
        w \<leftarrow> (if t_wait_set t \<noteq> OFC_HANDLE_NULL then core_waitset_wake E (t_wait_set t) w else Some w);
        Some (ofc_handle_unlock E hThread w)
      } else Some w)"

text \<open>Others act on the structures while \<open>pthread_join\<close> waits for the thread to end.\<close>

definition ofc_thread_wait_impl :: "env \<Rightarrow> thread_interference \<Rightarrow> handle \<Rightarrow> world \<Rightarrow> world option" where
  "ofc_thread_wait_impl E others hThread w =
     (let (p, w) = ofc_handle_lock E hThread w in
      if p \<noteq> OFC_NULL then do {
        t \<leftarrow> thr_mem w p;
        w \<leftarrow> (if t_detachstate t = OFC_THREAD_JOIN then do {
                th \<leftarrow> t_thread t;
                let w = call_void E (Pthread (ThreadJoin th)) w;
                let w = w\<lparr>thr_mem := others (thr_mem w)\<rparr>;
                t \<leftarrow> thr_mem w p;
                let w = call_void E (Pkg (HandleDestroy (t_handle t))) w;
                let w = call_void E (Pkg (Free p)) w;
                Some (w\<lparr>thr_mem := (thr_mem w)(p := None)\<rparr>)
              } else Some w);
        Some (ofc_handle_unlock E hThread w)
      } else Some w)"

definition ofc_thread_is_deleting_impl :: "env \<Rightarrow> handle \<Rightarrow> world \<Rightarrow> bool result" where
  "ofc_thread_is_deleting_impl E hThread w =
     (let (p, w) = ofc_handle_lock E hThread w in
      if p \<noteq> OFC_NULL then do {
        t \<leftarrow> thr_mem w p;
        Some (deleteMe t, ofc_handle_unlock E hThread w)
      } else Some (False, w))"

text \<open>The endless loop of \<open>ofc_sleep_impl\<close>, and the microseconds it asks for otherwise.\<close>

partial_function (option) sleep_days :: "env \<Rightarrow> world \<Rightarrow> world option" where
  "sleep_days E w = sleep_days E (call_void E (Clock (SysSleep (60 * 60 * 24))) w)"

definition ofc_sleep_impl :: "env \<Rightarrow> 32 word \<Rightarrow> world \<Rightarrow> world option" where
  "ofc_sleep_impl E milliseconds w =
     (if milliseconds = OFC_INFINITE E then sleep_days E w
      else let useconds = milliseconds * 1000 in Some (call_void E (Clock (SysUsleep useconds)) w))"

definition ofc_thread_create_variable_impl :: "env \<Rightarrow> world \<Rightarrow> 32 word \<times> world" where
  "ofc_thread_create_variable_impl E w =
     (let (r, w) = call E (Pthread KeyCreate) w in (word_of_int (r_ret r), w))"

definition ofc_thread_destroy_variable_impl :: "env \<Rightarrow> 32 word \<Rightarrow> world \<Rightarrow> world" where
  "ofc_thread_destroy_variable_impl E dkey w = call_void E (Pthread (KeyDelete dkey)) w"

definition ofc_thread_get_variable_impl :: "env \<Rightarrow> 32 word \<Rightarrow> world \<Rightarrow> 64 word \<times> world" where
  "ofc_thread_get_variable_impl E var w = call_addr E (Pthread (KeyGet var)) w"

definition ofc_thread_set_variable_impl :: "env \<Rightarrow> 32 word \<Rightarrow> 64 word \<Rightarrow> world \<Rightarrow> world" where
  "ofc_thread_set_variable_impl E var val w = call_void E (Pthread (KeySet var val)) w"

definition ofc_thread_create_local_storage_impl :: "world \<Rightarrow> world" where
  "ofc_thread_create_local_storage_impl w = w"

definition ofc_thread_destroy_local_storage_impl :: "world \<Rightarrow> world" where
  "ofc_thread_destroy_local_storage_impl w = w"

definition ofc_thread_init_impl :: "world \<Rightarrow> world" where
  "ofc_thread_init_impl w = w"

definition ofc_thread_destroy_impl :: "world \<Rightarrow> world" where
  "ofc_thread_destroy_impl w = w"

definition ofc_thread_detach_impl :: "env \<Rightarrow> handle \<Rightarrow> world \<Rightarrow> world option" where
  "ofc_thread_detach_impl E hThread w =
     (let (p, w) = ofc_handle_lock E hThread w in
      if p \<noteq> OFC_NULL then do {
        t \<leftarrow> thr_mem w p;
        let w = w\<lparr>thr_mem := (thr_mem w)(p \<mapsto> t\<lparr>t_detachstate := OFC_THREAD_DETACH\<rparr>)\<rparr>;
        th \<leftarrow> t_thread t;
        let w = call_void E (Pthread (ThreadDetach th)) w;
        Some (ofc_handle_unlock E hThread w)
      } else Some w)"

datatype thread_op =
    TCreate ptr ptr detachstate handle
  | TLaunch thread_interference thread_interference ptr
  | TSetWaitset handle handle
  | TDelete handle
  | TWait thread_interference handle
  | TIsDeleting handle
  | TDetach handle

text \<open>In a sequence of operations, the other threads change the structures there are.\<close>

fun thread_step :: "env \<Rightarrow> thread_op \<Rightarrow> world \<Rightarrow> world option" where
  "thread_step E (TCreate s c d n) w = map_option snd (ofc_thread_create_impl E (\<lambda>p. Some) s c d n w)"
| "thread_step E (TLaunch others others' p) w =
     ofc_thread_launch E (\<lambda>m. others m |` dom m) (\<lambda>m. others' m |` dom m) p w"
| "thread_step E (TSetWaitset h s) w = ofc_thread_set_waitset_impl E h s w"
| "thread_step E (TDelete h) w = ofc_thread_delete_impl E h w"
| "thread_step E (TWait others h) w = ofc_thread_wait_impl E (\<lambda>m. others m |` dom m) h w"
| "thread_step E (TIsDeleting h) w = map_option snd (ofc_thread_is_deleting_impl E h w)"
| "thread_step E (TDetach h) w = ofc_thread_detach_impl E h w"

lemmas thread_defs = ofc_thread_launch_def ofc_thread_create_impl_def ofc_thread_set_waitset_impl_def
  ofc_thread_delete_impl_def ofc_thread_wait_impl_def ofc_thread_is_deleting_impl_def ofc_thread_detach_impl_def

section \<open>Ownership\<close>

text \<open>The calls into events and wait sets leave the threads alone.\<close>

definition thread_frame :: "world \<Rightarrow> world \<Rightarrow> bool" where
  "thread_frame w w' \<longleftrightarrow> thr_mem w' = thr_mem w \<and> balanced w w' \<and> (\<forall>h. dead (calls w') h = dead (calls w) h)"

lemma linked_frames:
  "returns (core_event_set (linked E) h w) (thread_frame w)"
  "returns (core_waitset_wake (linked E) h w) (thread_frame w)"
  by (auto simp: linked_def thread_frame_def balanced_defs event_defs ofc_waitset_wake_impl_def Let_def wp
      split: call_splits)

lemma linked_frameD:
  "core_event_set (linked E) h w = Some w' \<Longrightarrow> thread_frame w w'"
  "core_waitset_wake (linked E) h w = Some w' \<Longrightarrow> thread_frame w w'"
  using returns_D [OF linked_frames(1)] returns_D [OF linked_frames(2)] by blast+

lemma thread_step_locks: "returns (thread_step (linked E) op w) (same_locks w)"
  by (cases op) (auto simp: thread_defs same_locks_def Let_def wp thread_frame_def balanced_defs
      split: call_splits intro!: returns_I dest!: linked_frameD)

interpretation thread: lock_discipline "thread_step (linked E)"
  by unfold_locales (rule thread_step_locks)

lemma thread_step_owned:
  assumes "fresh_alloc E" and "owned thr_mem w"
  shows "returns (thread_step (linked E) op w) (owned thr_mem)"
proof -
  have "fresh_alloc (linked E)" using assms(1) by (simp add: fresh_alloc_def linked_def)
  note fresh = fresh_allocD [OF this]
  show ?thesis using assms(2)
    by (cases op) (auto simp: thread_defs owned_def Let_def wp thread_frame_def balanced_defs restrict_map_def
        split: call_splits if_splits intro!: returns_I dest!: linked_frameD dest: fresh)
qed

interpretation thread: structure_owner "thread_step (linked E)" thr_mem E
  by unfold_locales (rule thread_step_owned)

section \<open>The life of a thread\<close>

definition thread_at :: "env \<Rightarrow> handle \<Rightarrow> ptr \<Rightarrow> android_thread \<Rightarrow> world \<Rightarrow> bool" where
  "thread_at E h p t w \<longleftrightarrow> locks_to E h p \<and> \<not> dead (calls w) h \<and> thr_mem w p = Some t \<and> t_handle t = h"

lemma thread_atD:
  assumes "thread_at E h p t w"
  shows "p \<noteq> OFC_NULL" "thr_mem w p = Some t" "\<not> dead (calls w) h" "t_handle t = h"
    "ofc_handle_lock E h w = (p, logged (Pkg (HandleLock h)) (respond E (calls w) (Pkg (HandleLock h))) w)"
    "r_addr (respond E (calls w) (Pkg (HandleLock h))) = p"
  using assms by (auto simp: thread_at_def lock_live locks_to_def)

text \<open>What a thread needs to start: memory, a handle for it, and the system's consent.\<close>

definition can_start :: "env \<Rightarrow> ptr \<Rightarrow> handle \<Rightarrow> 64 word \<Rightarrow> world \<Rightarrow> bool" where
  "can_start E p h th w \<longleftrightarrow>
     (\<forall>hist. r_addr (respond E hist (Pkg Malloc)) = p \<and>
        r_addr (respond E hist (Pkg (HandleCreate OFC_HANDLE_THREAD p))) = h \<and>
        r_ret (respond E hist (Pthread (ThreadCreate p))) = 0 \<and>
        r_addr (respond E hist (Pthread (ThreadCreate p))) = th) \<and>
     locks_to E h p \<and> \<not> dead (calls w) h \<and> thr_mem w p = None"

definition new_thread :: "ptr \<Rightarrow> ptr \<Rightarrow> detachstate \<Rightarrow> handle \<Rightarrow> handle \<Rightarrow> 64 word \<Rightarrow> android_thread" where
  "new_thread s c d h n th =
     \<lparr>t_thread = Some th, scheduler = s, t_context = c, t_ret = None, deleteMe = False, t_handle = h,
      t_detachstate = d, t_wait_set = OFC_HANDLE_NULL, hNotify = n\<rparr>"

definition beside_threads :: "world \<Rightarrow> world \<Rightarrow> bool" where
  "beside_threads w w' \<longleftrightarrow> ev_mem w' = ev_mem w \<and> ws_mem w' = ws_mem w \<and> aws_mem w' = aws_mem w \<and>
     (\<forall>g. held (calls w') g = held (calls w) g)"

lemma can_startD:
  assumes "can_start E p h th w"
  shows "p \<noteq> OFC_NULL" "answers E (Pkg Malloc) v r \<Longrightarrow> r_addr r = p"
    "answers E (Pkg (HandleCreate OFC_HANDLE_THREAD p)) v r \<Longrightarrow> r_addr r = h"
    "answers E (Pthread (ThreadCreate p)) v r \<Longrightarrow> r_ret r = 0"
    "answers E (Pthread (ThreadCreate p)) v r \<Longrightarrow> r_addr r = th"
    "locks_to E h p" "\<not> dead (calls w) h" "thr_mem w p = None"
  using assms by (auto simp: can_start_def answers_def locks_to_def)

text \<open>The calls of thread functions, with the handle, the context and the result, newest first.\<close>

fun runs :: "history \<Rightarrow> (ptr \<times> handle \<times> ptr \<times> int) list" where
  "runs [] = []"
| "runs ((Core (RunScheduler s h c), r) # cs) = (s, h, c, r_ret r) # runs cs"
| "runs (_ # cs) = runs cs"

definition just_started :: "env \<Rightarrow> handle \<Rightarrow> ptr \<Rightarrow> android_thread \<Rightarrow> world \<Rightarrow> world \<Rightarrow> bool" where
  "just_started E h p t w w1 \<longleftrightarrow> thread_at E h p t w1 \<and> beside_threads w w1 \<and>
     thr_mem w1 = (thr_mem w)(p \<mapsto> t) \<and> runs (calls w1) = runs (calls w) \<and> (\<forall>g. dead (calls w1) g = dead (calls w) g) \<and>
     (\<forall>q. blocks (calls w1) q = blocks (calls w) q + (if q = p then 1 else 0))"

lemma create_started:
  assumes "can_start E p h th w"
    and "\<And>w1. just_started E h p (new_thread s c d h n th) w w1 \<Longrightarrow>
      R (do { v \<leftarrow> started p w1; t \<leftarrow> thr_mem v p; Some (t_handle t, v) })"
  shows "R (ofc_thread_create_impl E started s c d n w)"
proof -
  note start = can_startD [OF assms(1)]
  have d: "d = OFC_THREAD_DETACH \<or> d = OFC_THREAD_JOIN" by (cases d) simp_all
  show ?thesis
    unfolding ofc_thread_create_impl_def Let_def
    apply (simp split: call_splits)
    apply (intro conjI allI impI)
       apply (simp_all add: start)
    apply (rule assms(2), simp add: just_started_def thread_at_def start new_thread_def beside_threads_def)+
    done
qed

text \<open>
  The thread's own run, in an environment whose dispatchers call this layer: it ends its
  function once, announces it and, when it is detached, takes its structure with it.
\<close>

definition ran :: "android_thread \<Rightarrow> int \<Rightarrow> world \<Rightarrow> world \<Rightarrow> bool" where
  "ran t x w w' \<longleftrightarrow> runs (calls w') = (scheduler t, t_handle t, t_context t, x) # runs (calls w)"

lemma set_event_runs: "returns (ofc_event_set_impl E n v) (\<lambda>v'. runs (calls v') = runs (calls v))"
  by (auto simp: ofc_event_set_impl_def ofc_waitset_signal_impl_def Let_def wp split: call_splits)

lemma runs_called: "(s, h, c, x) \<in> set (runs cs) \<Longrightarrow> Core (RunScheduler s h c) \<in> fst ` set cs"
  by (induction cs rule: runs.induct) auto

lemma run_called: "runs cs = (s, h, c, x) # rs \<Longrightarrow> Core (RunScheduler s h c) \<in> fst ` set cs"
  by (rule runs_called [of _ _ _ x]) simp

lemma launch_live:
  assumes at: "thread_at (linked E) h p t w" and notify: "hNotify t = n" "event_at (linked E) n q e w" "sinks_live (linked E) w"
    and n: "n \<noteq> OFC_HANDLE_NULL"
  shows "yields (ofc_thread_launch (linked E) (\<lambda>m. m) (\<lambda>m. m) p w) (\<lambda>w'. \<exists>x.
    (let t' = t\<lparr>t_ret := Some (word_of_int x)\<rparr> in
     ran t x w w' \<and> ev_mem w' = (ev_mem w)(q \<mapsto> e\<lparr>signalled := True\<rparr>) \<and>
     (\<forall>g. held (calls w') g = held (calls w) g) \<and>
     (if t_detachstate t = OFC_THREAD_DETACH
      then thr_mem w' = (thr_mem w)(p := None) \<and> dead (calls w') h \<and>
           (\<forall>b. blocks (calls w') b = blocks (calls w) b - (if b = p then 1 else 0))
      else thr_mem w' = (thr_mem w)(p \<mapsto> t') \<and> thread_at (linked E) h p t' w' \<and> same_blocks w w')))"
proof -
  note d = thread_atD [OF at]
  let ?c = "Core (RunScheduler (scheduler t) (t_handle t) (t_context t))"
  let ?r = "respond (linked E) (calls w) ?c"
  let ?t = "t\<lparr>t_ret := Some (word_of_int (r_ret ?r))\<rparr>"
  let ?w1 = "(logged ?c ?r w)\<lparr>thr_mem := (thr_mem w)(p \<mapsto> ?t)\<rparr>"
  have e1: "event_at (linked E) n q e ?w1" "sinks_live (linked E) ?w1"
    using notify(2,3) by (simp_all add: event_at_def sinks_live_def waitset_at_def)
  obtain w2 where set: "ofc_event_set_impl (linked E) n ?w1 = Some w2"
    and fr: "event_frame q (e\<lparr>signalled := True\<rparr>) ?w1 w2" and cs: "runs (calls w2) = runs (calls ?w1)"
    using yields_and_returns [OF event_set_live [OF e1] set_event_runs] by (auto elim!: yieldsE)
  have fw: "core_event_set (linked E) = ofc_event_set_impl (linked E)"
    using linked_forwards [of E] by (simp add: core_forwards_def)
  have thr: "thr_mem w2 = (thr_mem w)(p \<mapsto> ?t)"
    using fr same_memD(5) [of "?w1\<lparr>ev_mem := (ev_mem ?w1)(q \<mapsto> e\<lparr>signalled := True\<rparr>)\<rparr>" w2]
    by (simp add: event_frame_def)
  note ev = event_frameD [OF fr]
  have bal: "same_locks ?w1 w2" "same_blocks ?w1 w2" using fr by (simp_all add: event_frame_def)
  have ran2: "ran t (r_ret ?r) w w2" using cs by (simp add: ran_def)
  show ?thesis
    using d n set fw thr ev bal ran2 notify(1) at
    by (auto simp: ofc_thread_launch_def call_ret_def call_def call_void_def Let_def wp ran_def thread_at_def
        same_locks_def same_blocks_def)
qed

lemma started_event:
  assumes "just_started E h p t w w1" "event_at E n q e w" "sinks_live E w"
  shows "event_at E n q e w1" "sinks_live E w1"
  using assms by (simp_all add: just_started_def beside_threads_def event_at_def sinks_live_def waitset_at_def)

lemma wait_joins:
  assumes at: "thread_at E h p t w" and t: "t_detachstate t = OFC_THREAD_JOIN" "t_thread t = Some th"
  shows "yields (ofc_thread_wait_impl E (\<lambda>m. m) h w) (\<lambda>w'. thr_mem w' = (thr_mem w)(p := None) \<and> dead (calls w') h \<and>
    Pthread (ThreadJoin th) \<in> fst ` set (calls w') \<and> ev_mem w' = ev_mem w \<and> runs (calls w') = runs (calls w) \<and>
    (\<forall>g. held (calls w') g = held (calls w) g) \<and>
    (\<forall>b. blocks (calls w') b = blocks (calls w) b - (if b = p then 1 else 0)))"
  using thread_atD [OF at] t
  by (auto simp: ofc_thread_wait_impl_def Let_def wp split: call_splits)

text \<open>
  C13. A joinable thread runs its function exactly once, with its own handle and context, stores
  what the function returned, and signals the notification event. Waiting for it afterwards
  joins it, destroys its handle and frees its structure: memory, blocks and handle locks are as
  they were before, apart from the event.
\<close>

theorem thread_joined:
  assumes start: "can_start (linked E) p h th w"
    and notify: "event_at (linked E) n q e w" "sinks_live (linked E) w" "n \<noteq> OFC_HANDLE_NULL"
  shows "yields (do {
      (h', w) \<leftarrow> ofc_thread_create_impl (linked E) (\<lambda>p. Some) s c OFC_THREAD_JOIN n w;
      w1 \<leftarrow> ofc_thread_launch (linked E) (\<lambda>m. m) (\<lambda>m. m) p w;
      w2 \<leftarrow> ofc_thread_wait_impl (linked E) (\<lambda>m. m) h' w1;
      Some (h', w1, w2) })
    (\<lambda>(h', w1, w2). h' = h \<and>
      (\<exists>t x. runs (calls w2) = (s, h, c, x) # runs (calls w) \<and> thr_mem w1 p = Some t \<and> t_ret t = Some (word_of_int x)) \<and>
      ev_mem w2 = (ev_mem w)(q \<mapsto> e\<lparr>signalled := True\<rparr>) \<and> Pthread (ThreadJoin th) \<in> fst ` set (calls w2) \<and>
      thr_mem w2 = thr_mem w \<and> dead (calls w2) h \<and> same_blocks w w2 \<and> same_locks w w2)"
  unfolding yields_bind
proof (rule create_started [OF start], goal_cases)
  case (1 w1)
  let ?t = "new_thread s c OFC_THREAD_JOIN h n th"
  have at: "thread_at (linked E) h p ?t w1" using 1 by (simp add: just_started_def)
  have free: "(thr_mem w)(p := None) = thr_mem w" using can_startD(8) [OF start] by (simp add: fun_upd_idem)
  show ?case
    using 1 thread_atD(2) [OF at]
    by (auto simp: wp ran_def same_blocks_def same_locks_def new_thread_def just_started_def beside_threads_def free Let_def
        intro!: yields_mono [OF launch_live [OF at _ started_event [OF 1 notify(1,2)] notify(3)]]
          yields_mono [OF wait_joins [where th = th]])
qed

text \<open>
  C14. A detached thread frees its own structure and destroys its handle when it ends, with
  nothing left over. If it ends before its creator has read the handle from that structure, the
  creator follows a dangling pointer: the result is undefined.
\<close>

theorem thread_detached:
  assumes start: "can_start (linked E) p h th w"
    and notify: "event_at (linked E) n q e w" "sinks_live (linked E) w" "n \<noteq> OFC_HANDLE_NULL"
  shows "yields (do {
      (h', w) \<leftarrow> ofc_thread_create_impl (linked E) (\<lambda>p. Some) s c OFC_THREAD_DETACH n w;
      w1 \<leftarrow> ofc_thread_launch (linked E) (\<lambda>m. m) (\<lambda>m. m) p w;
      Some (h', w1) })
    (\<lambda>(h', w1). h' = h \<and> Core (RunScheduler s h c) \<in> fst ` set (calls w1) \<and>
      ev_mem w1 = (ev_mem w)(q \<mapsto> e\<lparr>signalled := True\<rparr>) \<and>
      thr_mem w1 = thr_mem w \<and> dead (calls w1) h \<and> same_blocks w w1 \<and> same_locks w w1) \<and>
    ofc_thread_create_impl (linked E) (ofc_thread_launch (linked E) (\<lambda>m. m) (\<lambda>m. m)) s c OFC_THREAD_DETACH n w = None"
proof
  let ?t = "new_thread s c OFC_THREAD_DETACH h n th"
  have free: "(thr_mem w)(p := None) = thr_mem w" using can_startD(8) [OF start] by (simp add: fun_upd_idem)
  have at: "thread_at (linked E) h p ?t w1" if "just_started (linked E) h p ?t w w1" for w1
    using that by (simp add: just_started_def)
  have "hNotify ?t = n" by (simp add: new_thread_def)
  note live = launch_live [OF at this started_event [OF _ notify(1,2)] notify(3)]
  show "yields (do {
      (h', w) \<leftarrow> ofc_thread_create_impl (linked E) (\<lambda>p. Some) s c OFC_THREAD_DETACH n w;
      w1 \<leftarrow> ofc_thread_launch (linked E) (\<lambda>m. m) (\<lambda>m. m) p w;
      Some (h', w1) })
    (\<lambda>(h', w1). h' = h \<and> Core (RunScheduler s h c) \<in> fst ` set (calls w1) \<and>
      ev_mem w1 = (ev_mem w)(q \<mapsto> e\<lparr>signalled := True\<rparr>) \<and>
      thr_mem w1 = thr_mem w \<and> dead (calls w1) h \<and> same_blocks w w1 \<and> same_locks w w1)"
    unfolding yields_bind
  proof (rule create_started [OF start], goal_cases)
    case (1 w1)
    show ?case
      using 1 thread_atD(2) [OF at [OF 1]]
      by (auto simp: wp ran_def same_blocks_def same_locks_def new_thread_def just_started_def beside_threads_def free Let_def
          dest: run_called intro!: yields_mono [OF live [OF 1 1 1]])
  qed
  show "ofc_thread_create_impl (linked E) (ofc_thread_launch (linked E) (\<lambda>m. m) (\<lambda>m. m)) s c OFC_THREAD_DETACH n w = None"
  proof (rule create_started [OF start], goal_cases)
    case (1 w1)
    have "yields (ofc_thread_launch (linked E) (\<lambda>m. m) (\<lambda>m. m) p w1) (\<lambda>v. thr_mem v p = None)"
      by (rule yields_mono [OF live [OF 1 1 1]]) (auto simp: new_thread_def Let_def)
    then show ?case by (auto elim!: yieldsE)
  qed
qed

text \<open>
  A joinable thread that is detached after it has ended: nobody joins it, and it frees nothing.
\<close>

theorem late_detach_leaks:
  assumes start: "can_start (linked E) p h th w"
    and notify: "event_at (linked E) n q e w" "sinks_live (linked E) w" "n \<noteq> OFC_HANDLE_NULL"
  shows "yields (do {
      (h', w) \<leftarrow> ofc_thread_create_impl (linked E) (\<lambda>p. Some) s c OFC_THREAD_JOIN n w;
      w \<leftarrow> ofc_thread_launch (linked E) (\<lambda>m. m) (\<lambda>m. m) p w;
      w \<leftarrow> ofc_thread_detach_impl (linked E) h' w;
      ofc_thread_wait_impl (linked E) (\<lambda>m. m) h' w })
    (\<lambda>w'. blocks (calls w') p = blocks (calls w) p + 1 \<and> \<not> dead (calls w') h \<and>
      Pthread (ThreadJoin th) \<notin> fst ` set (take 4 (calls w')) \<and> Pthread (ThreadDetach th) \<in> fst ` set (calls w'))"
  unfolding yields_bind
proof (rule create_started [OF start], goal_cases)
  case (1 w1)
  let ?t = "new_thread s c OFC_THREAD_JOIN h n th"
  have at: "thread_at (linked E) h p ?t w1" using 1 by (simp add: just_started_def)
  have detached: "yields (do { v \<leftarrow> ofc_thread_detach_impl (linked E) h v; ofc_thread_wait_impl (linked E) (\<lambda>m. m) h v })
    (\<lambda>v'. blocks (calls v') p = blocks (calls v) p \<and> \<not> dead (calls v') h \<and>
      Pthread (ThreadJoin th) \<notin> fst ` set (take 4 (calls v')) \<and> Pthread (ThreadDetach th) \<in> fst ` set (calls v'))"
    if "thread_at (linked E) h p t v" "t_thread t = Some th" for t v
  proof -
    note d = thread_atD [OF that(1)]
    let ?w = "(logged (Pthread (ThreadDetach th)) r1 (logged (Pkg (HandleLock h)) r2 v))"
    have "r_addr (respond (linked E) cs (Pkg (HandleLock h))) = p" if "\<not> dead cs h" for cs
      using that \<open>thread_at (linked E) h p t v\<close> by (simp add: thread_at_def locks_to_def)
    then show ?thesis
      using d that(2) unfolding yields_bind
      by (auto simp: ofc_thread_detach_impl_def ofc_thread_wait_impl_def call_addr_def call_void_def call_def Let_def wp)
  qed
  show ?case
    using 1 thread_atD(2) [OF at]
    by (auto simp: wp same_blocks_def new_thread_def just_started_def Let_def
        intro!: yields_mono [OF launch_live [OF at _ started_event [OF 1 notify(1,2)] notify(3)]]
          yields_mono [OF detached [unfolded yields_bind]])
qed

text \<open>
  A deletion is a flag, and a wake-up of the wait set the thread has registered: the thread, back
  from its wait, finds the flag.
\<close>

text \<open>
  C19. Deleting a thread that was given a wait set raises the flag that the thread asks for and
  writes the null handle to the pipe of that set and to no other descriptor; nothing else of the
  thread changes.
\<close>

theorem delete_reaches_thread:
  assumes at: "thread_at (linked E) h p t w" and ws: "waitset_at (linked E) s q ws aws w" and s: "s \<noteq> OFC_HANDLE_NULL"
  shows "yields (do {
      w \<leftarrow> ofc_thread_set_waitset_impl (linked E) h s w;
      (b, w) \<leftarrow> ofc_thread_is_deleting_impl (linked E) h w;
      w \<leftarrow> ofc_thread_delete_impl (linked E) h w;
      (b', w) \<leftarrow> ofc_thread_is_deleting_impl (linked E) h w;
      Some ((b, b'), w) })
    (\<lambda>((b, b'), w'). b = deleteMe t \<and> b' \<and> thr_mem w' = (thr_mem w)(p \<mapsto> t\<lparr>t_wait_set := s, deleteMe := True\<rparr>) \<and>
      (\<forall>d. written (calls w') d = written (calls w) d @ (if d = pipe_write aws then [OFC_HANDLE_NULL] else [])) \<and>
      same_locks w w')"
proof -
  have lk: "locks_to (linked E) h p" and t: "thr_mem w p = Some t" "\<not> dead (calls w) h" and p: "p \<noteq> OFC_NULL"
    using at thread_atD(1) [OF at] by (simp_all add: thread_at_def)
  have lock: "call_addr (linked E) (Pkg (HandleLock h)) v =
      (p, logged (Pkg (HandleLock h)) (respond (linked E) (calls v) (Pkg (HandleLock h))) v)" if "\<not> dead (calls v) h" for v
    using lock_live [OF lk that] .
  have ra: "r_addr (respond (linked E) cs (Pkg (HandleLock h))) = p" if "\<not> dead cs h" for cs
    using lk that by (simp add: locks_to_def)
  have fw: "core_waitset_wake (linked E) = ofc_waitset_wake_impl (linked E)"
    using linked_forwards [of E] by (simp add: core_forwards_def)
  have wake: "yields (ofc_waitset_signal_impl (linked E) s OFC_HANDLE_NULL v) (\<lambda>v'.
      thr_mem v' = thr_mem v \<and> (\<forall>g. held (calls v') g = held (calls v) g) \<and> (\<forall>g. dead (calls v') g = dead (calls v) g) \<and>
      (\<forall>d. written (calls v') d = written (calls v) d @ (if d = pipe_write aws then [OFC_HANDLE_NULL] else [])))"
    if "waitset_at (linked E) s q ws aws v" for v
    by (rule yields_mono [OF signal_live [OF that]]) (simp add: same_memD same_locks_def)
  show ?thesis
    using t p s ws
    by (auto simp: ofc_thread_set_waitset_impl_def ofc_thread_is_deleting_impl_def ofc_thread_delete_impl_def
        lock ra fw ofc_waitset_wake_impl_def wp Let_def waitset_at_def same_locks_def call_void_def call_def
        intro!: yields_mono [OF wake])
qed

text \<open>
  C38. After any sequence of thread operations, with any behaviour of the other threads, every
  thread structure in memory still sits in an allocated block and every handle lock is released.
\<close>

theorem threads_stay_owned:
  assumes "fresh_alloc E" and "owned thr_mem w" and "run_ops (thread_step (linked E)) ops w = Some w'"
    and "\<forall>h. held (calls w) h = 0"
  shows "owned thr_mem w' \<and> held (calls w') h = 0"
  using thread.run_owned [OF assms(1-3)] thread.run_unlocked [OF assms(4,3)] by blast

section \<open>Sleeping\<close>

lemma sleep_days_never: "sleep_days E w = None"
proof -
  have "\<not> sleep_days E w = Some w'" for w'
  proof
    assume "sleep_days E w = Some w'"
    then show False
      by (rule sleep_days.raw_induct [where P = "\<lambda>E w w'. False", rotated]) auto
  qed
  then show ?thesis by (cases "sleep_days E w") auto
qed

text \<open>
  C39. A sleep asks the kernel for a thousand times its milliseconds modulo 2^32, which is the
  time wanted exactly below 4294968 ms; an infinite sleep does not return.
\<close>

theorem sleep_microseconds:
  assumes "ms \<noteq> OFC_INFINITE E"
  shows "yields (ofc_sleep_impl E ms w) (\<lambda>w'. \<exists>us r. calls w' = (Clock (SysUsleep us), r) # calls w \<and>
    uint us = (1000 * uint ms) mod 2 ^ 32 \<and> (uint ms < 4294968 \<longleftrightarrow> uint us = 1000 * uint ms)) \<and>
    ofc_sleep_impl E (OFC_INFINITE E) w = None"
proof -
  have us: "uint (ms * 1000) = (1000 * uint ms) mod 2 ^ 32"
    by (simp add: uint_word_arith_bintrs take_bit_eq_mod mult.commute)
  moreover have "uint ms < 4294968 \<longleftrightarrow> (1000 * uint ms) mod 2 ^ 32 = 1000 * uint ms"
  proof -
    have "(1000 * uint ms) mod 2 ^ 32 = 1000 * uint ms \<longleftrightarrow> 1000 * uint ms < 2 ^ 32"
      using pos_mod_bound [of "2 ^ 32" "1000 * uint ms"] by (auto simp: mod_pos_pos_trivial)
    then show ?thesis by auto
  qed
  ultimately show ?thesis
    using assms by (simp add: ofc_sleep_impl_def Let_def wp sleep_days_never call_void_def call_def)
qed

section \<open>Instances\<close>

text \<open>
  The event and the wait set of \<open>demo_world\<close>, and room for a thread at address 256 with handle 9.
\<close>

definition thread_env :: env where
  "thread_env = ref_env (\<lambda>hist c. case c of
     Pkg Malloc \<Rightarrow> no_resp\<lparr>r_addr := 256\<rparr>
   | Pkg (HandleCreate ty p) \<Rightarrow> no_resp\<lparr>r_addr := 9\<rparr>
   | Pkg (HandleLock h) \<Rightarrow> no_resp\<lparr>r_addr := (if h = 7 then 64 else if h = 8 then 96 else if h = 9 then 256 else 0)\<rparr>
   | Pkg (HandleGetWaitSet h) \<Rightarrow> no_resp\<lparr>r_addr := 8\<rparr>
   | Pthread (ThreadCreate p) \<Rightarrow> no_resp\<lparr>r_addr := 77\<rparr>
   | _ \<Rightarrow> no_resp)"

lemma respond_linked [simp]: "respond (linked E) = respond E"
  by (simp add: linked_def)

lemma locks_thread_env:
  "locks_to (linked thread_env) 7 64" "locks_to (linked thread_env) 8 96" "locks_to (linked thread_env) 9 256"
  by (simp_all add: locks_to_def thread_env_def no_resp_def)

lemma demo_thread:
  "can_start (linked thread_env) 256 9 77 (demo_world OFC_EVENT_AUTO False)"
  "event_at (linked thread_env) 7 64 \<lparr>eventType = OFC_EVENT_AUTO, signalled = False\<rparr> (demo_world OFC_EVENT_AUTO False)"
  "waitset_at (linked thread_env) 8 96 \<lparr>ws_impl = 128, hHandleQueue = 0\<rparr> \<lparr>pipe_read = 5, pipe_write = 6\<rparr>
     (demo_world OFC_EVENT_AUTO False)"
  "sinks_live (linked thread_env) (demo_world OFC_EVENT_AUTO False)"
proof -
  show ws: "waitset_at (linked thread_env) 8 96 \<lparr>ws_impl = 128, hHandleQueue = 0\<rparr> \<lparr>pipe_read = 5, pipe_write = 6\<rparr>
     (demo_world OFC_EVENT_AUTO False)"
    by (rule demo_at(2) [OF locks_thread_env(2)])
  then show "sinks_live (linked thread_env) (demo_world OFC_EVENT_AUTO False)"
    by (auto simp: sinks_live_def thread_env_def no_resp_def)
  show "can_start (linked thread_env) 256 9 77 (demo_world OFC_EVENT_AUTO False)"
    using locks_thread_env(3) by (simp add: can_start_def thread_env_def no_resp_def demo_world_def)
qed (rule demo_at(1) [OF locks_thread_env(1)])

theorem thread_joined_witness:
  "yields (do {
      (h', w) \<leftarrow> ofc_thread_create_impl (linked thread_env) (\<lambda>p. Some) 1 2 OFC_THREAD_JOIN 7 (demo_world OFC_EVENT_AUTO False);
      w1 \<leftarrow> ofc_thread_launch (linked thread_env) (\<lambda>m. m) (\<lambda>m. m) 256 w;
      w2 \<leftarrow> ofc_thread_wait_impl (linked thread_env) (\<lambda>m. m) h' w1;
      Some (h', w1, w2) }) (\<lambda>(h', w1, w2). h' = 9 \<and> thr_mem w2 = Map.empty)"
  by (rule yields_mono [OF thread_joined [OF demo_thread(1,2,4)]]) (auto simp: demo_world_def)

theorem thread_detached_witness:
  "ofc_thread_create_impl (linked thread_env) (ofc_thread_launch (linked thread_env) (\<lambda>m. m) (\<lambda>m. m)) 1 2
     OFC_THREAD_DETACH 7 (demo_world OFC_EVENT_AUTO False) = None"
  using thread_detached [OF demo_thread(1,2,4)] by simp

theorem late_detach_leaks_witness:
  "yields (do {
      (h', w) \<leftarrow> ofc_thread_create_impl (linked thread_env) (\<lambda>p. Some) 1 2 OFC_THREAD_JOIN 7 (demo_world OFC_EVENT_AUTO False);
      w \<leftarrow> ofc_thread_launch (linked thread_env) (\<lambda>m. m) (\<lambda>m. m) 256 w;
      w \<leftarrow> ofc_thread_detach_impl (linked thread_env) h' w;
      ofc_thread_wait_impl (linked thread_env) (\<lambda>m. m) h' w }) (\<lambda>w'. blocks (calls w') 256 = 1)"
  by (rule yields_mono [OF late_detach_leaks [OF demo_thread(1,2,4)]]) (auto simp: demo_world_def no_resp_def)

definition waiting_thread :: android_thread where
  "waiting_thread = new_thread 1 2 OFC_THREAD_JOIN 9 0 77"

theorem delete_reaches_thread_witness:
  "yields (do {
      w \<leftarrow> ofc_thread_set_waitset_impl (linked thread_env) 9 8
             ((demo_world OFC_EVENT_AUTO False)\<lparr>thr_mem := [256 \<mapsto> waiting_thread]\<rparr>);
      (b, w) \<leftarrow> ofc_thread_is_deleting_impl (linked thread_env) 9 w;
      w \<leftarrow> ofc_thread_delete_impl (linked thread_env) 9 w;
      (b', w) \<leftarrow> ofc_thread_is_deleting_impl (linked thread_env) 9 w;
      Some ((b, b'), w) }) (\<lambda>((b, b'), w'). \<not> b \<and> b' \<and> written (calls w') 6 = [OFC_HANDLE_NULL])"
proof -
  let ?w = "(demo_world OFC_EVENT_AUTO False)\<lparr>thr_mem := [256 \<mapsto> waiting_thread]\<rparr>"
  have at: "thread_at (linked thread_env) 9 256 waiting_thread ?w"
    using locks_thread_env(3) by (simp add: thread_at_def waiting_thread_def new_thread_def demo_world_def)
  have ws: "waitset_at (linked thread_env) 8 96 \<lparr>ws_impl = 128, hHandleQueue = 0\<rparr> \<lparr>pipe_read = 5, pipe_write = 6\<rparr> ?w"
    using demo_thread(3) by (simp add: waitset_at_def)
  show ?thesis
    by (rule yields_mono [OF delete_reaches_thread [OF at ws]])
       (auto simp: waiting_thread_def new_thread_def demo_world_def)
qed

theorem threads_stay_owned_witness:
  "\<exists>w'. run_ops (thread_step (linked (small_env 0 0 []))) [TCreate 1 2 OFC_THREAD_JOIN 0, TIsDeleting 7, TWait (\<lambda>m. m) 7]
      empty_world = Some w' \<and> owned thr_mem w' \<and> held (calls w') 7 = 0"
proof -
  have "yields (run_ops (thread_step (linked (small_env 0 0 [])))
      [TCreate 1 2 OFC_THREAD_JOIN 0, TIsDeleting 7, TWait (\<lambda>m. m) 7] empty_world) (\<lambda>_. True)"
    by (simp add: thread_defs Let_def wp call_def call_addr_def call_void_def no_resp_def small_env_def restrict_map_def)
  then obtain w' where run: "run_ops (thread_step (linked (small_env 0 0 [])))
      [TCreate 1 2 OFC_THREAD_JOIN 0, TIsDeleting 7, TWait (\<lambda>m. m) 7] empty_world = Some w'"
    by (rule yieldsE)
  have "owned thr_mem empty_world" by (simp add: owned_def)
  from threads_stay_owned [OF fresh_small this run] run show ?thesis by simp
qed

theorem sleep_microseconds_witness:
  "yields (ofc_sleep_impl thread_env 4294968 empty_world) (\<lambda>w'. \<exists>us r. calls w' = [(Clock (SysUsleep us), r)] \<and> uint us = 704)"
proof -
  have "(4294968 :: 32 word) \<noteq> OFC_INFINITE thread_env"
    by (simp add: thread_env_def ref_env_def)
  from sleep_microseconds [OF this, of empty_world] show ?thesis by (auto elim!: yields_mono)
qed

end
