(* ===== verification/OFC_Lock.thy ===== *)
theory OFC_Lock
  imports OFC_Reference
begin

text \<open>
  The recursive locks of src/src/lock\_android.c. A lock is named by its address; nothing checks
  that the address is a lock, so using one that does not exist is undefined, and so is a lock
  whose allocation failed. The address a caller returns to is an argument of the operations that
  record it (\<open>OFC_STACK_TRACE\<close>). The lemmas show how each operation changes the number of times
  a lock is held, and that creation and destruction release what they take.
\<close>

section \<open>Operations\<close>

definition ofc_lock_destroy_impl :: "env \<Rightarrow> ptr \<Rightarrow> world \<Rightarrow> world option" where
  "ofc_lock_destroy_impl E p w = do {
     _ \<leftarrow> lock_mem w p;
     let w = call_void E (Pthread (MutexDestroy p)) w;
     let w = call_void E (Pthread (MutexattrDestroy p)) w;
     let w = call_void E (Pkg (Free p)) w;
     Some (w\<lparr>lock_mem := (lock_mem w)(p := None)\<rparr>)
   }"

definition ofc_lock_init_impl :: "env \<Rightarrow> world \<Rightarrow> ptr result" where
  "ofc_lock_init_impl E w =
     (let (p, w) = call_addr E (Pkg Malloc) w in
      if p = OFC_NULL then None
      else
        let w = call_void E (Pthread (MutexattrInit p)) w;
            w = call_void E (Pthread (MutexattrRecursive p)) w;
            w = call_void E (Pthread (MutexInit p)) w
        in Some (p, w\<lparr>lock_mem := (lock_mem w)(p \<mapsto> \<lparr>lk_caller = OFC_NULL\<rparr>)\<rparr>))"

definition record_caller :: "env \<Rightarrow> ptr \<Rightarrow> ptr \<Rightarrow> world \<Rightarrow> world" where
  "record_caller E ra p w =
     (if cfg_stack_trace E
      then let (a, w) = call_addr E (Core (ProcessRelativeAddr ra)) w
           in w\<lparr>lock_mem := (lock_mem w)(p \<mapsto> \<lparr>lk_caller = a\<rparr>)\<rparr>
      else w)"

definition ofc_lock_try_impl :: "env \<Rightarrow> ptr \<Rightarrow> ptr \<Rightarrow> world \<Rightarrow> bool result" where
  "ofc_lock_try_impl E ra p w = do {
     _ \<leftarrow> lock_mem w p;
     let (n, w) = call_ret E (Pthread (MutexTrylock p)) w;
     Some (if n = 0 then (True, record_caller E ra p w) else (False, w))
   }"

definition ofc_lock_impl :: "env \<Rightarrow> ptr \<Rightarrow> ptr \<Rightarrow> world \<Rightarrow> world option" where
  "ofc_lock_impl E ra p w = do {
     _ \<leftarrow> lock_mem w p;
     let w = call_void E (Pthread (MutexLock p)) w;
     Some (record_caller E ra p w)
   }"

definition ofc_unlock_impl :: "env \<Rightarrow> ptr \<Rightarrow> ptr \<Rightarrow> world \<Rightarrow> world option" where
  "ofc_unlock_impl E ra p w = do {
     _ \<leftarrow> lock_mem w p;
     let w = record_caller E ra p w;
     Some (call_void E (Pthread (MutexUnlock p)) w)
   }"

datatype lock_op = LockInit | LockDestroy ptr | LockTry ptr ptr | Lock ptr ptr | Unlock ptr ptr

fun lock_step :: "env \<Rightarrow> lock_op \<Rightarrow> world \<Rightarrow> world option" where
  "lock_step E LockInit w = map_option snd (ofc_lock_init_impl E w)"
| "lock_step E (LockDestroy p) w = ofc_lock_destroy_impl E p w"
| "lock_step E (LockTry ra p) w = map_option snd (ofc_lock_try_impl E ra p w)"
| "lock_step E (Lock ra p) w = ofc_lock_impl E ra p w"
| "lock_step E (Unlock ra p) w = ofc_unlock_impl E ra p w"

lemmas lock_defs = ofc_lock_destroy_impl_def ofc_lock_init_impl_def ofc_lock_try_impl_def
  ofc_lock_impl_def ofc_unlock_impl_def record_caller_def

section \<open>Ownership\<close>

lemma lock_step_locks: "returns (lock_step E op w) (same_locks w)"
  by (cases op) (auto simp: lock_defs same_locks_def Let_def wp split: call_splits)

interpretation lock: lock_discipline "lock_step E"
  by unfold_locales (rule lock_step_locks)

lemma lock_step_owned:
  assumes "fresh_alloc E" and "owned lock_mem w"
  shows "returns (lock_step E op w) (owned lock_mem)"
  using assms(2)
  by (cases op) (auto simp: lock_defs owned_def Let_def wp
      dest: fresh_allocD [OF assms(1)] split: call_splits if_splits)

interpretation lock: structure_owner "lock_step E" lock_mem E
  by unfold_locales (rule lock_step_owned)

section \<open>How often a lock is held\<close>

text \<open>
  The depth of a recursive mutex: locks and successful attempts count, from its initialisation
  on. The type a mutex was initialised with is the one its attributes had then.
\<close>

fun depth :: "history \<Rightarrow> ptr \<Rightarrow> int" where
  "depth [] p = 0"
| "depth ((Pthread (MutexInit q), r) # cs) p = (if q = p then 0 else depth cs p)"
| "depth ((Pthread (MutexLock q), r) # cs) p = (if q = p then depth cs p + 1 else depth cs p)"
| "depth ((Pthread (MutexTrylock q), r) # cs) p =
     (if q = p \<and> r_ret r = 0 then depth cs p + 1 else depth cs p)"
| "depth ((Pthread (MutexUnlock q), r) # cs) p = (if q = p then depth cs p - 1 else depth cs p)"
| "depth (_ # cs) p = depth cs p"

fun attr_recursive :: "history \<Rightarrow> ptr \<Rightarrow> bool" where
  "attr_recursive [] p = False"
| "attr_recursive ((Pthread (MutexattrInit q), r) # cs) p = (q \<noteq> p \<and> attr_recursive cs p)"
| "attr_recursive ((Pthread (MutexattrRecursive q), r) # cs) p = (q = p \<or> attr_recursive cs p)"
| "attr_recursive ((Pthread (MutexattrErrorcheck q), r) # cs) p = (q \<noteq> p \<and> attr_recursive cs p)"
| "attr_recursive (_ # cs) p = attr_recursive cs p"

fun recursive :: "history \<Rightarrow> ptr \<Rightarrow> bool" where
  "recursive [] p = False"
| "recursive ((Pthread (MutexInit q), r) # cs) p = (if q = p then attr_recursive cs p else recursive cs p)"
| "recursive ((Pthread (MutexDestroy q), r) # cs) p = (q \<noteq> p \<and> recursive cs p)"
| "recursive (_ # cs) p = recursive cs p"

text \<open>Every lock in memory has a recursive mutex; an invariant of all operations.\<close>

definition locks_recursive :: "world \<Rightarrow> bool" where
  "locks_recursive w \<longleftrightarrow> (\<forall>p. lock_mem w p \<noteq> None \<longrightarrow> recursive (calls w) p)"

lemma lock_step_recursive:
  assumes "locks_recursive w"
  shows "returns (lock_step E op w) locks_recursive"
  using assms
  by (cases op) (auto simp: lock_defs locks_recursive_def Let_def wp split: call_splits if_splits)

lemma run_recursive:
  assumes "locks_recursive w"
  shows "returns (run_ops (lock_step E) ops w) locks_recursive"
  using run_ops_invariant [of locks_recursive "lock_step E", OF lock_step_recursive assms] .

text \<open>
  C23. After any sequence of lock operations every lock in memory sits in an allocated block and
  its mutex was initialised with recursive attributes.
\<close>

theorem locks_stay_recursive:
  assumes "fresh_alloc E" and "owned lock_mem w" and "locks_recursive w"
    and "run_ops (lock_step E) ops w = Some w'" and "lock_mem w' p = Some l"
  shows "recursive (calls w') p \<and> blocks (calls w') p \<ge> 1"
  using lock.run_owned [OF assms(1,2,4)] returns_D [OF run_recursive [OF assms(3)] assms(4)] assms(5)
  by (simp add: locks_recursive_def owned_def)

text \<open>An attempt, then a nested lock and its unlock: what remains is what the attempt took.\<close>

theorem lock_depths:
  assumes "lock_mem w p \<noteq> None"
  shows "yields (do {
      (b, w1) \<leftarrow> ofc_lock_try_impl E ra p w;
      w2 \<leftarrow> ofc_lock_impl E ra p w1;
      w3 \<leftarrow> ofc_unlock_impl E ra p w2;
      Some (b, w1, w2, w3) })
    (\<lambda>(b, w1, w2, w3). depth (calls w1) p = depth (calls w) p + (if b then 1 else 0) \<and>
       depth (calls w2) p = depth (calls w1) p + 1 \<and> depth (calls w3) p = depth (calls w1) p \<and>
       (\<forall>q. q \<noteq> p \<longrightarrow> depth (calls w3) q = depth (calls w) q \<and> lock_mem w3 q = lock_mem w q) \<and>
       lock_mem w3 p \<noteq> None \<and> same_blocks w w3)"
  using assms by (auto simp: lock_defs Let_def wp same_blocks_def split: call_splits)

theorem lock_create_destroy:
  assumes "\<And>hist. r_addr (respond E hist (Pkg Malloc)) = p" and "lock_mem w p = None"
  shows "if p = OFC_NULL then ofc_lock_init_impl E w = None
    else yields (do { (q, w) \<leftarrow> ofc_lock_init_impl E w; w \<leftarrow> ofc_lock_destroy_impl E q w; Some (q, w) })
      (\<lambda>(q, w'). q = p \<and> lock_mem w' = lock_mem w \<and> same_blocks w w' \<and> \<not> recursive (calls w') p \<and>
         ofc_lock_destroy_impl E q w' = None)"
proof (cases "p = OFC_NULL")
  case True
  then show ?thesis
    using assms(1) by (simp add: ofc_lock_init_impl_def call_addr_def call_def Let_def)
next
  case False
  let ?r = "respond E (calls w) (Pkg Malloc)"
  have malloc: "call_addr E (Pkg Malloc) w = (p, logged (Pkg Malloc) ?r w)" and a: "r_addr ?r = p"
    using assms(1) by (simp_all add: call_addr_def call_def Let_def)
  have same: "(lock_mem w)(p := None) = lock_mem w"
    using assms(2) by (simp add: fun_upd_idem)
  show ?thesis
    using False by (simp add: lock_defs malloc Let_def wp split: call_splits) (simp add: same same_blocks_def a)
qed

section \<open>Instances\<close>

definition one_lock :: world where
  "one_lock = empty_world\<lparr>calls := [(Pthread (MutexInit 96), no_resp), (Pthread (MutexattrRecursive 96), no_resp),
     (Pkg Malloc, no_resp\<lparr>r_addr := 96\<rparr>)], lock_mem := [96 \<mapsto> \<lparr>lk_caller = 0\<rparr>]\<rparr>"

theorem locks_stay_recursive_witness:
  "\<exists>w'. run_ops (lock_step (small_env 0 0 [])) [LockInit, Lock 0 96, Unlock 0 96] one_lock = Some w' \<and>
    recursive (calls w') 64 \<and> blocks (calls w') 64 \<ge> 1"
proof -
  have "yields (run_ops (lock_step (small_env 0 0 [])) [LockInit, Lock 0 96, Unlock 0 96] one_lock)
      (\<lambda>w'. lock_mem w' 64 \<noteq> None)"
    by (auto simp: lock_defs one_lock_def Let_def wp answers_def no_resp_def small_env_def ref_env_def split: call_splits)
  then obtain w' where run: "run_ops (lock_step (small_env 0 0 [])) [LockInit, Lock 0 96, Unlock 0 96] one_lock = Some w'"
    and l: "lock_mem w' 64 \<noteq> None"
    by (rule yieldsE)
  have "owned lock_mem one_lock" "locks_recursive one_lock"
    by (simp_all add: owned_def one_lock_def locks_recursive_def no_resp_def)
  from locks_stay_recursive [OF fresh_small this run] l run show ?thesis by blast
qed

theorem lock_depths_witness:
  "yields (do {
      (b, w1) \<leftarrow> ofc_lock_try_impl (small_env 0 0 []) 0 96 one_lock;
      w2 \<leftarrow> ofc_lock_impl (small_env 0 0 []) 0 96 w1;
      w3 \<leftarrow> ofc_unlock_impl (small_env 0 0 []) 0 96 w2;
      Some (b, w1, w2, w3) }) (\<lambda>(b, w1, w2, w3). depth (calls w3) 96 = (if b then 1 else 0))"
  by (rule yields_mono [OF lock_depths]) (auto simp: one_lock_def)

theorem lock_create_destroy_witness:
  "yields (do { (q, w) \<leftarrow> ofc_lock_init_impl (const_env 64 0) empty_world;
      w \<leftarrow> ofc_lock_destroy_impl (const_env 64 0) q w; Some (q, w) }) (\<lambda>(q, w'). q = 64 \<and> lock_mem w' = Map.empty)"
  using lock_create_destroy [of "const_env 64 0" 64 empty_world]
  by (simp add: no_resp_def) (erule yields_mono, auto)

end
