(* ===== verification/OFC_Net.thy ===== *)
theory OFC_Net
  imports OFC_Reference
begin

text \<open>
  Interfaces and names (src/src/net\_android.c). The kernel's list of interfaces is the answer to
  \<open>SIOCGIFCONF\<close>; counting interfaces and looking one up by its index are two scans over that
  list with the same filter. The lemmas show that the two scans agree, which interface an index
  names, that every descriptor and block is given back, what a resolved name returns, and which
  entries of the list of servers for a service are written.

  A pointer argument that may be null is an \<open>option\<close>; three pointers to addresses are three
  different objects. Of \<open>struct ifreq\<close> a local variable holds, only the name is kept between
  calls; its bytes are whatever was there before the first name is copied into it.
\<close>

section \<open>Operations\<close>

definition ofc_net_init_impl :: "env \<Rightarrow> world \<Rightarrow> world" where
  "ofc_net_init_impl E w = call_void E (Net (SysSignalIgnore SIGPIPE)) (w\<lparr>g_network_handle := 0\<rparr>)"

definition ofc_net_set_handle_impl :: "64 word \<Rightarrow> world \<Rightarrow> world" where
  "ofc_net_set_handle_impl network_handle w = w\<lparr>g_network_handle := network_handle\<rparr>"

definition ofc_net_register_config_impl :: "handle \<Rightarrow> world \<Rightarrow> world" where
  "ofc_net_register_config_impl hEvent w = w"

definition ofc_net_unregister_config_impl :: "handle \<Rightarrow> world \<Rightarrow> world" where
  "ofc_net_unregister_config_impl hEvent w = w"

abbreviation (input) MAX_IFS :: nat where "MAX_IFS \<equiv> 16"
abbreviation (input) IFNAMSIZ :: nat where "IFNAMSIZ \<equiv> 16"

definition named :: "env \<Rightarrow> byte list \<Rightarrow> bool" where
  "named E name \<longleftrightarrow>
     ofc_strncmp E name (bytes ''wlan'') 4 = 0 \<or> ofc_strncmp E name (bytes ''eth'') 3 = 0 \<or>
     ofc_strncmp E name (bytes ''tun'') 3 = 0 \<or> ofc_strncmp E name (bytes ''p2p-wlan'') 8 = 0"

definition up :: "resp \<Rightarrow> bool" where
  "up r \<longleftrightarrow> r_ret r \<ge> 0 \<and> r_flags r AND IFF_UP \<noteq> 0 \<and> \<not> r_flags r AND IFF_LOOPBACK \<noteq> 0"

text \<open>Opening the socket and reading the list; more entries than the buffer has are out of bounds.\<close>

definition ifconf_entries :: "ptr \<Rightarrow> resp \<Rightarrow> ifreq list option" where
  "ifconf_entries buf r =
     (if length (r_ifs r) > MAX_IFS \<or> buf = OFC_NULL \<and> r_ifs r \<noteq> [] then None else Some (r_ifs r))"

fun count_interfaces :: "env \<Rightarrow> int \<Rightarrow> ifreq list \<Rightarrow> byte list \<Rightarrow> int \<Rightarrow> world \<Rightarrow> int \<times> world" where
  "count_interfaces E sock [] name max_count w = (max_count, w)"
| "count_interfaces E sock (p # ps) name max_count w =
     (if ifr_family p = 2 then
        let name = ofc_strncpy E name (ifr_name p) IFNAMSIZ in
        if named E name then
          let (r, w) = call E (Net (SysIfflags sock name)) w
          in count_interfaces E sock ps name (if up r then max_count + 1 else max_count) w
        else count_interfaces E sock ps name max_count w
      else count_interfaces E sock ps name max_count w)"

definition ofc_net_interface_count_impl :: "env \<Rightarrow> world \<Rightarrow> int result" where
  "ofc_net_interface_count_impl E w =
     (let (r, w) = call E (Sys Indeterminate) w; name = r_buf r;
          (sock, w) = call_ret E (Sys (SysSocket AF_INET SOCK_DGRAM IPPROTO_UDP)) w
      in if sock \<ge> 0 then do {
           let (buf, w) = call_addr E (Pkg Malloc) w;
           let (r, w) = call E (Net (SysIfconf sock MAX_IFS)) w;
           (max_count, w) \<leftarrow>
             (if r_ret r \<ge> 0
              then do { ifs \<leftarrow> ifconf_entries buf r; Some (count_interfaces E sock ifs name 0 w) }
              else Some (0, w));
           let w = call_void E (Pkg (Free buf)) w;
           let w = call_void E (Sys (SysClose sock)) w;
           Some (max_count, w)
         } else Some (0, w))"

text \<open>The scan for an index ends at the entry it found; the copied name comes along.\<close>

fun find_interface ::
  "env \<Rightarrow> int \<Rightarrow> int \<Rightarrow> ifreq list \<Rightarrow> byte list \<Rightarrow> int \<Rightarrow> world \<Rightarrow> (ifreq option \<times> byte list) \<times> world" where
  "find_interface E sock index [] name max_count w = ((None, name), w)"
| "find_interface E sock index (p # ps) name max_count w =
     (if ifr_family p = 2 then
        let name = ofc_strncpy E name (ifr_name p) IFNAMSIZ in
        if named E name then
          let (r, w) = call E (Net (SysIfflags sock name)) w in
          if up r then
            if index = max_count then ((Some p, name), w)
            else find_interface E sock index ps name (max_count + 1) w
          else find_interface E sock index ps name max_count w
        else find_interface E sock index ps name max_count w
      else find_interface E sock index ps name max_count w)"

text \<open>One of the three queries about the interface found, when its result is wanted.\<close>

definition query_address ::
  "env \<Rightarrow> (int \<Rightarrow> byte list \<Rightarrow> netcall) \<Rightarrow> int \<Rightarrow> byte list \<Rightarrow> ipaddr option \<Rightarrow> byte list \<Rightarrow> world \<Rightarrow>
   (ipaddr option \<times> byte list) result" where
  "query_address E q sock src out name w =
     (case out of None \<Rightarrow> Some ((None, name), w)
      | Some ip \<Rightarrow>
          let name = ofc_strncpy E name src IFNAMSIZ;
              (r, w) = call E (Net (q sock name)) w
          in if r_ret r \<ge> 0
             then do { a \<leftarrow> peek 4 4 (r_buf r); Some ((Some (ip\<lparr>ipv4_addr := NET_NTOL E a\<rparr>), name), w) }
             else Some ((Some ip, name), w))"

definition no_address :: "env \<Rightarrow> ipaddr \<Rightarrow> ipaddr" where
  "no_address E ip = ip\<lparr>ip_version := OFC_FAMILY_IP, ipv4_addr := OFC_INADDR_NONE E\<rparr>"

definition ofc_net_interface_addr_impl ::
  "env \<Rightarrow> int \<Rightarrow> ipaddr option \<Rightarrow> ipaddr option \<Rightarrow> ipaddr option \<Rightarrow> world \<Rightarrow>
   (ipaddr option \<times> ipaddr option \<times> ipaddr option) result" where
  "ofc_net_interface_addr_impl E index pinaddr pbcast pmask w =
     (let pinaddr = map_option (no_address E) pinaddr;
          pbcast = map_option (no_address E) pbcast;
          pmask = map_option (no_address E) pmask;
          (r, w) = call E (Sys Indeterminate) w; name = r_buf r;
          (sock, w) = call_ret E (Sys (SysSocket AF_INET SOCK_DGRAM IPPROTO_UDP)) w
      in if sock \<ge> 0 then do {
           let (buf, w) = call_addr E (Pkg Malloc) w;
           let (r, w) = call E (Net (SysIfconf sock MAX_IFS)) w;
           ((pinaddr, pbcast, pmask), w) \<leftarrow>
             (if r_ret r \<ge> 0 then do {
                ifs \<leftarrow> ifconf_entries buf r;
                let ((found, name), w) = find_interface E sock index ifs name 0 w;
                (case found of None \<Rightarrow> Some ((pinaddr, pbcast, pmask), w)
                 | Some p \<Rightarrow> do {
                     ((pinaddr, name), w) \<leftarrow> query_address E SysIfaddr sock (ifr_name p) pinaddr name w;
                     ((pmask, name), w) \<leftarrow> query_address E SysIfnetmask sock (ifr_name p) pmask name w;
                     ((pbcast, name), w) \<leftarrow> query_address E SysIfbrdaddr sock (ifr_name p) pbcast name w;
                     Some ((pinaddr, pbcast, pmask), w)
                   })
              } else Some ((pinaddr, pbcast, pmask), w));
           let w = call_void E (Pkg (Free buf)) w;
           let w = call_void E (Sys (SysClose sock)) w;
           Some ((pinaddr, pbcast, pmask), w)
         } else Some ((pinaddr, pbcast, pmask), w))"

text \<open>What is stored through the two pointers: a count of zero and a null list.\<close>

definition ofc_net_interface_wins_impl :: "int option \<Rightarrow> ptr option \<Rightarrow> int option \<times> ptr option" where
  "ofc_net_interface_wins_impl num_wins winslist =
     (map_option (\<lambda>_. 0) num_wins, map_option (\<lambda>_. OFC_NULL) winslist)"

text \<open>
  The addresses of a name are copied into the caller's array, whose elements are \<open>ip\<close>; an
  index past its end is undefined.
\<close>

fun copy_hosts :: "env \<Rightarrow> byte list list \<Rightarrow> nat \<Rightarrow> 16 word \<Rightarrow> ipaddr list \<Rightarrow> (nat \<times> ipaddr list) option" where
  "copy_hosts E [] i num ip = Some (i, ip)"
| "copy_hosts E (h # hs) i num ip =
     (if i < unat num then do {
        a \<leftarrow> peek 0 4 h;
        if i < length ip
        then copy_hosts E hs (i + 1) num
               (ip[i := (ip ! i)\<lparr>ip_version := OFC_FAMILY_IP, ipv4_addr := NET_NTOL E a\<rparr>])
        else None
      } else Some (i, ip))"

definition ofc_net_resolve_dns_name_impl ::
  "env \<Rightarrow> byte list \<Rightarrow> 16 word \<Rightarrow> ipaddr list \<Rightarrow> world \<Rightarrow> (16 word \<times> ipaddr list) result" where
  "ofc_net_resolve_dns_name_impl E name num_addrs ip w =
     (let (hentry, w) = call E (Net (SysGethostbyname name)) w
      in if r_addr hentry \<noteq> OFC_NULL
         then do { (i, ip) \<leftarrow> copy_hosts E (r_hosts hentry) 0 num_addrs ip; Some ((of_nat i, ip), w) }
         else Some ((0, ip), w))"

text \<open>
  The resolver's search for a service (\<open>OFC_KERBEROS\<close>). A reply that is longer than the buffer
  is read past the buffer's end, and the parsed message is undefined when parsing fails; neither
  is checked, so both are undefined here. The list \<open>dc\<close> is allocated with the square of the number
  of answers as its length, and an entry is \<open>None\<close> until it is written: the entry of an answer
  that is no service record, or whose name does not expand, is never written. Nothing is stored
  through the two pointers when the resolver cannot be set up or finds nothing.
\<close>

abbreviation (input) PACKETSZ :: int where "PACKETSZ \<equiv> 512"
abbreviation (input) MAXCDNAME :: int where "MAXCDNAME \<equiv> 255"
abbreviation (input) T_SRV :: int where "T_SRV \<equiv> 33"

fun expand_answers :: "env \<Rightarrow> nat \<Rightarrow> nat \<Rightarrow> ptr option list \<Rightarrow> world \<Rightarrow> ptr option list \<times> world" where
  "expand_answers E 0 i dc w = (dc, w)"
| "expand_answers E (Suc k) i dc w =
     (let (rr, w) = call E (Net (NsParserr i)) w in
      if r_ret rr \<ge> 0 \<and> fst (r_pair rr) = T_SRV then
        let (r, w) = call E (Net (DnExpand i MAXCDNAME)) w in
        if r_ret r \<ge> 0
        then let (s, w) = call_addr E (Core (Strdup (r_buf r))) w in expand_answers E k (i + 1) (dc[i := Some s]) w
        else expand_answers E k (i + 1) dc w
      else expand_answers E k (i + 1) dc w)"

definition ofc_net_resolve_svc :: "env \<Rightarrow> byte list \<Rightarrow> world \<Rightarrow> (nat \<times> ptr option list) option result" where
  "ofc_net_resolve_svc E svc w =
     (let (init, w) = call_ret E (Net ResInit) w in
      if init = 0 then
        let (len, w) = call_ret E (Net (ResSearch svc PACKETSZ)) w in
        if len \<ge> 0 then
          if len > PACKETSZ then None
          else
            let (parsed, w) = call_ret E (Net (NsInitparse len)) w in
            if parsed < 0 then None
            else do {
              let (n, w) = call_ret E (Net NsMsgCount) w;
              let (p, w) = call_addr E (Pkg Malloc) w;
              let (dc, w) = expand_answers E (nat n) 0 (replicate (nat n * nat n) None) w;
              if p = OFC_NULL \<and> list_ex (\<lambda>x. x \<noteq> None) dc then None else Some (Some (nat n, dc), w)
            }
        else Some (None, call_void E (Core (Log ''Could not resolve search for kerberos'')) w)
      else Some (None, call_void E (Core (Log ''Could Not Init Resolver Library for getting Domain DC'')) w))"

section \<open>Descriptors and blocks\<close>

text \<open>How often a descriptor was opened as a socket and not closed again.\<close>

fun opened :: "history \<Rightarrow> int \<Rightarrow> int" where
  "opened [] d = 0"
| "opened ((Sys (SysSocket f t p), r) # cs) d = (if 0 \<le> r_ret r \<and> r_ret r = d then opened cs d + 1 else opened cs d)"
| "opened ((Sys (SysClose e), r) # cs) d = (if e = d then opened cs d - 1 else opened cs d)"
| "opened (_ # cs) d = opened cs d"

definition net_frame :: "world \<Rightarrow> world \<Rightarrow> bool" where
  "net_frame w w' \<longleftrightarrow> same_mem w w' \<and> same_locks w w' \<and> same_blocks w w' \<and>
     (\<forall>d. opened (calls w') d = opened (calls w) d)"

lemma net_frame_refl [simp]: "net_frame w w"
  by (simp add: net_frame_def same_blocks_def)

lemma net_frame_trans: "net_frame a b \<Longrightarrow> net_frame b c \<Longrightarrow> net_frame a c"
  by (auto simp: net_frame_def same_blocks_def intro: same_mem_trans same_locks_trans)

lemma net_frame_call [simp]: "net_frame w (logged (Net c) r w)"
  by (simp add: net_frame_def same_blocks_def same_locks_def)

lemma count_interfaces_frame: "net_frame w (snd (count_interfaces E sock ifs name n w))"
proof (induction ifs arbitrary: name n w)
  case (Cons p ps)
  have "net_frame w (snd (count_interfaces E sock ps name' n' (logged (Net c) r w)))" for name' n' c r
    by (rule net_frame_trans [OF net_frame_call Cons.IH])
  then show ?case using Cons.IH by (simp add: Let_def call_def)
qed simp

lemma find_interface_frame: "net_frame w (snd (find_interface E sock index ifs name n w))"
proof (induction ifs arbitrary: name n w)
  case (Cons p ps)
  have "net_frame w (snd (find_interface E sock index ps name' n' (logged (Net c) r w)))" for name' n' c r
    by (rule net_frame_trans [OF net_frame_call Cons.IH])
  then show ?case using Cons.IH by (simp add: Let_def call_def)
qed simp

lemma query_address_frame: "returns (query_address E q sock src out name w) (\<lambda>(x, w'). net_frame w w')"
  by (auto simp: query_address_def Let_def wp split: option.splits call_splits)

text \<open>
  The bracket both operations share: whatever happens between the socket and its close, and
  between the allocation and its free, leaves the state as it was but for the history.
\<close>

lemma net_bracket:
  assumes "net_frame (w\<lparr>calls := (Net c, r3) # (Pkg Malloc, m) # (Sys (SysSocket f t p), s) #
      (Sys Indeterminate, i) # calls w\<rparr>) v" and "0 \<le> r_ret s"
  shows "net_frame w (v\<lparr>calls := (Sys (SysClose (r_ret s)), r4) # (Pkg (Free (r_addr m)), r5) # calls v\<rparr>)"
  using assms by (auto simp: net_frame_def same_locks_def same_blocks_def)

lemma net_bracket_empty:
  "0 \<le> r_ret s \<Longrightarrow> net_frame w (w\<lparr>calls := (Sys (SysClose (r_ret s)), r4) # (Pkg (Free (r_addr m)), r5) #
     (Net c, r3) # (Pkg Malloc, m) # (Sys (SysSocket f t p), s) # (Sys Indeterminate, i) # calls w\<rparr>)"
  "\<not> 0 \<le> r_ret s \<Longrightarrow> net_frame w (w\<lparr>calls := (Sys (SysSocket f t p), s) # (Sys Indeterminate, i) # calls w\<rparr>)"
  by (auto simp: net_frame_def same_locks_def same_blocks_def)

lemma scan_frames:
  "count_interfaces E sock ifs name n v = (k, v') \<Longrightarrow> net_frame v v'"
  "find_interface E sock index ifs name n v = (x, v') \<Longrightarrow> net_frame v v'"
  using count_interfaces_frame [of v E sock ifs name n] find_interface_frame [of v E sock index ifs name n] by auto

lemma interface_count_frame:
  "returns (ofc_net_interface_count_impl E w) (\<lambda>(n, w'). net_frame w w')"
  by (auto simp: ofc_net_interface_count_impl_def Let_def wp net_bracket_empty
      split: call_splits prod.splits intro!: net_bracket returns_I dest: scan_frames)

lemma interface_addr_frame:
  "returns (ofc_net_interface_addr_impl E index a b m w) (\<lambda>(x, w'). net_frame w w')"
proof -
  have q: "net_frame u v'" if "query_address E q sock src out name v = Some (x, v')" "net_frame u v" for u v v' q sock src out name x
    using returns_D [OF query_address_frame that(1)] net_frame_trans [OF that(2)] by simp
  show ?thesis
    by (auto simp: ofc_net_interface_addr_impl_def Let_def wp net_bracket_empty
        split: call_splits prod.splits option.splits intro!: net_bracket returns_I dest!: scan_frames) (blast intro: q)+
qed

section \<open>The two scans agree\<close>

text \<open>
  A kernel whose answers do not change: the socket \<open>sock\<close>, the entries \<open>ifs\<close>, the name \<open>nm\<close>
  and the flags \<open>fl\<close> of an entry. Copying a name does not depend on what was there before.
\<close>

definition steady :: "env \<Rightarrow> int \<Rightarrow> ifreq list \<Rightarrow> (ifreq \<Rightarrow> byte list) \<Rightarrow> (ifreq \<Rightarrow> resp) \<Rightarrow> bool" where
  "steady E sock ifs nm fl \<longleftrightarrow>
     (\<forall>hist. r_ret (respond E hist (Sys (SysSocket AF_INET SOCK_DGRAM IPPROTO_UDP))) = sock) \<and> 0 \<le> sock \<and>
     (\<forall>hist. r_addr (respond E hist (Pkg Malloc)) \<noteq> OFC_NULL) \<and>
     (\<forall>hist. 0 \<le> r_ret (respond E hist (Net (SysIfconf sock MAX_IFS))) \<and>
        r_ifs (respond E hist (Net (SysIfconf sock MAX_IFS))) = ifs) \<and> length ifs \<le> MAX_IFS \<and>
     (\<forall>p\<in>set ifs. (\<forall>d. ofc_strncpy E d (ifr_name p) IFNAMSIZ = nm p) \<and>
        (\<forall>hist. respond E hist (Net (SysIfflags sock (nm p))) = fl p))"

definition usable :: "env \<Rightarrow> (ifreq \<Rightarrow> byte list) \<Rightarrow> (ifreq \<Rightarrow> resp) \<Rightarrow> ifreq \<Rightarrow> bool" where
  "usable E nm fl p \<longleftrightarrow> ifr_family p = 2 \<and> named E (nm p) \<and> up (fl p)"

definition scannable :: "env \<Rightarrow> int \<Rightarrow> ifreq list \<Rightarrow> (ifreq \<Rightarrow> byte list) \<Rightarrow> (ifreq \<Rightarrow> resp) \<Rightarrow> bool" where
  "scannable E sock ifs nm fl \<longleftrightarrow> (\<forall>p\<in>set ifs. (\<forall>d. ofc_strncpy E d (ifr_name p) IFNAMSIZ = nm p) \<and>
     (\<forall>hist. respond E hist (Net (SysIfflags sock (nm p))) = fl p))"

lemma count_interfaces_usable:
  "scannable E sock ifs nm fl \<Longrightarrow>
   fst (count_interfaces E sock ifs name n w) = n + int (length (filter (usable E nm fl) ifs))"
  by (induction ifs arbitrary: name n w)
     (simp_all add: scannable_def usable_def call_def Let_def)

lemma find_interface_usable:
  "scannable E sock ifs nm fl \<Longrightarrow>
   fst (fst (find_interface E sock index ifs name n w)) =
   (if n \<le> index \<and> nat (index - n) < length (filter (usable E nm fl) ifs)
    then Some (filter (usable E nm fl) ifs ! nat (index - n)) else None)"
proof (induction ifs arbitrary: name n w)
  case (Cons p ps)
  have IH: "fst (fst (find_interface E sock index ps name' n' w')) =
      (if n' \<le> index \<and> nat (index - n') < length (filter (usable E nm fl) ps)
       then Some (filter (usable E nm fl) ps ! nat (index - n')) else None)" for name' n' w'
    using Cons by (simp add: scannable_def)
  have step: "nat (index - n) = Suc (nat (index - (n + 1)))" if "n \<le> index" "index \<noteq> n"
    using that by linarith
  show ?case
  proof (cases "usable E nm fl p")
    case True
    then have "find_interface E sock index (p # ps) name n w =
        (let w' = logged (Net (SysIfflags sock (nm p))) (fl p) w
         in if index = n then ((Some p, nm p), w') else find_interface E sock index ps (nm p) (n + 1) w')"
      using Cons.prems by (simp add: scannable_def usable_def call_def Let_def)
    then show ?thesis using True step by (auto simp: IH Let_def)
  next
    case False
    then have "\<exists>name' w'. find_interface E sock index (p # ps) name n w = find_interface E sock index ps name' n w'"
      using Cons.prems by (auto simp: scannable_def usable_def call_def Let_def)
    then show ?thesis using False by (auto simp: IH)
  qed
qed simp

text \<open>What the kernel says about an interface's address: the bytes after family and port.\<close>

definition answers_address :: "env \<Rightarrow> netcall \<Rightarrow> 32 word \<Rightarrow> bool" where
  "answers_address E c a \<longleftrightarrow> (\<forall>hist. 0 \<le> r_ret (respond E hist (Net c)) \<and>
     8 \<le> length (r_buf (respond E hist (Net c))) \<and>
     NET_NTOL E (take 4 (drop 4 (r_buf (respond E hist (Net c))))) = a)"

lemma query_address_answers:
  assumes "\<And>d. ofc_strncpy E d src IFNAMSIZ = nm" and "answers_address E (q sock nm) a"
  shows "yields (query_address E q sock src (Some ip) name w)
    (\<lambda>((ip', name'), w'). ip' = Some (ip\<lparr>ipv4_addr := a\<rparr>))"
  using assms by (auto simp: query_address_def answers_address_def peek_def call_def wp Let_def)

text \<open>
  C12. The count of the interfaces and the look-up by an index agree: the count is the number of
  usable interfaces (IPv4, of the accepted names, up and not a loop-back), every index below it
  gives the address, broadcast address and mask of the interface at that place among them, and
  any other index gives no address three times.
\<close>

theorem interface_indices:
  assumes net: "steady E sock ifs nm fl"
    and addr: "\<And>p. p \<in> set ifs \<Longrightarrow> answers_address E (SysIfaddr sock (nm p)) (ad p)"
      "\<And>p. p \<in> set ifs \<Longrightarrow> answers_address E (SysIfbrdaddr sock (nm p)) (bc p)"
      "\<And>p. p \<in> set ifs \<Longrightarrow> answers_address E (SysIfnetmask sock (nm p)) (mk p)"
    and us: "us = filter (usable E nm fl) ifs"
  shows "yields (do {
      (n, w) \<leftarrow> ofc_net_interface_count_impl E w;
      ((a, b, m), w) \<leftarrow> ofc_net_interface_addr_impl E index (Some a0) (Some b0) (Some m0) w;
      Some ((n, a, b, m), w) })
    (\<lambda>((n, a, b, m), w'). n = int (length us) \<and>
      (let ip = (\<lambda>x0 x. Some (x0\<lparr>ip_version := OFC_FAMILY_IP, ipv4_addr := x\<rparr>)) in
       if 0 \<le> index \<and> index < n
       then a = ip a0 (ad (us ! nat index)) \<and> b = ip b0 (bc (us ! nat index)) \<and> m = ip m0 (mk (us ! nat index))
       else a = ip a0 (OFC_INADDR_NONE E) \<and> b = ip b0 (OFC_INADDR_NONE E) \<and> m = ip m0 (OFC_INADDR_NONE E)))"
proof -
  have scan: "scannable E sock ifs nm fl" using net by (simp add: steady_def scannable_def)
  have count: "yields (ofc_net_interface_count_impl E v) (\<lambda>(n, v'). n = int (length us))" for v
    using net count_interfaces_usable [OF scan]
    by (auto simp: ofc_net_interface_count_impl_def steady_def ifconf_entries_def us Let_def wp
        call_def call_addr_def call_ret_def split: prod.splits)
       (metis add_0 fst_conv)
  have addr: "yields (ofc_net_interface_addr_impl E index (Some a0) (Some b0) (Some m0) v)
    (\<lambda>((a, b, m), v'). let ip = (\<lambda>x0 x. Some (x0\<lparr>ip_version := OFC_FAMILY_IP, ipv4_addr := x\<rparr>)) in
       if 0 \<le> index \<and> index < int (length us)
       then a = ip a0 (ad (us ! nat index)) \<and> b = ip b0 (bc (us ! nat index)) \<and> m = ip m0 (mk (us ! nat index))
       else a = ip a0 (OFC_INADDR_NONE E) \<and> b = ip b0 (OFC_INADDR_NONE E) \<and> m = ip m0 (OFC_INADDR_NONE E))"
    (is "yields _ ?Q") for v
  proof (cases "0 \<le> index \<and> index < int (length us)")
    case True
    let ?p = "us ! nat index"
    have p: "?p \<in> set ifs" using True us nth_mem [of "nat index" us] by auto
    then have nm: "ofc_strncpy E d (ifr_name ?p) IFNAMSIZ = nm ?p" for d using scan by (simp add: scannable_def)
    note q = yields_mono [OF query_address_answers [where q = SysIfaddr, OF nm addr(1) [OF p]]]
      yields_mono [OF query_address_answers [where q = SysIfbrdaddr, OF nm addr(2) [OF p]]]
      yields_mono [OF query_address_answers [where q = SysIfnetmask, OF nm addr(3) [OF p]]]
    have found: "fst (fst (find_interface E sock index ifs name 0 u)) = Some ?p" for name u
      using True by (simp add: find_interface_usable [OF scan] us nat_less_iff)
    have some: "f = Some ?p" if "find_interface E sock index ifs name 0 u = ((f, n), u')" for name u f n u'
      using found [of name u] that by simp
    then show ?thesis
      using net True
      by (auto simp: ofc_net_interface_addr_impl_def steady_def ifconf_entries_def Let_def wp no_address_def
          call_def call_addr_def call_ret_def split: prod.splits intro!: q dest!: some)
  next
    case False
    then have "fst (fst (find_interface E sock index ifs name 0 u)) = None" for name u
      using False by (auto simp: find_interface_usable [OF scan] us nat_less_iff)
    then have none: "f = None" if "find_interface E sock index ifs name 0 u = ((f, n), u')" for name u f n u'
      by (metis that fst_conv)
    then show ?thesis
      using net False
      by (auto simp: ofc_net_interface_addr_impl_def steady_def ifconf_entries_def Let_def wp no_address_def
          call_def call_addr_def call_ret_def split: prod.splits dest!: none)
  qed
  show ?thesis
    unfolding yields_bind by (rule yields_mono [OF count]) (clarsimp simp: yields_bind, rule yields_mono [OF addr], auto simp: wp Let_def split: if_splits)
qed

text \<open>
  C35. Looking up an interface and counting the interfaces free every block and close every
  descriptor they take, on every path, and change no structure.
\<close>

theorem net_gives_back:
  assumes "ofc_net_interface_addr_impl E index a b m w = Some (x, w')"
    and "ofc_net_interface_count_impl E w' = Some (n, w'')"
  shows "same_mem w w'' \<and> blocks (calls w'') p = blocks (calls w) p \<and> opened (calls w'') d = opened (calls w) d"
  using net_frame_trans [of w w' w''] returns_D [OF interface_addr_frame assms(1)]
    returns_D [OF interface_count_frame assms(2)]
  by (simp add: net_frame_def same_blocks_def)

section \<open>Names\<close>

lemma copy_hosts_take:
  "\<forall>h\<in>set hs. length h = 4 \<Longrightarrow> unat num \<le> length ip \<Longrightarrow> i \<le> unat num \<Longrightarrow>
   copy_hosts E hs i num ip =
   (let k = min (length hs) (unat num - i) in
    Some (i + k, take i ip @ map (\<lambda>(h, q). q\<lparr>ip_version := OFC_FAMILY_IP, ipv4_addr := NET_NTOL E h\<rparr>)
                               (zip (take k hs) (drop i ip)) @ drop (i + k) ip))"
proof (induction hs arbitrary: i ip)
  case (Cons h hs)
  show ?case
  proof (cases "i < unat num")
    case True
    let ?q = "(ip ! i)\<lparr>ip_version := OFC_FAMILY_IP, ipv4_addr := NET_NTOL E h\<rparr>"
    have i: "i < length ip" using True Cons.prems by simp
    have pk: "peek 0 4 h = Some h" using Cons.prems by (simp add: peek_def)
    have u: "unat num - i = Suc (unat num - (i + 1))" using True by simp
    have dr: "drop i ip = ip ! i # drop (Suc i) ip" using i by (simp add: Cons_nth_drop_Suc)
    have "copy_hosts E (h # hs) i num ip = copy_hosts E hs (i + 1) num (ip[i := ?q])"
      using True i pk by simp
    also have "\<dots> = (let k = min (length hs) (unat num - (i + 1)) in
      Some (i + 1 + k, take (i + 1) (ip[i := ?q]) @
        map (\<lambda>(h, q). q\<lparr>ip_version := OFC_FAMILY_IP, ipv4_addr := NET_NTOL E h\<rparr>)
          (zip (take k hs) (drop (i + 1) (ip[i := ?q]))) @ drop (i + 1 + k) (ip[i := ?q])))"
      using Cons.prems True by (intro Cons.IH) auto
    also have "take (i + 1) (ip[i := ?q]) = take i ip @ [?q]"
      using i by (simp add: take_Suc_conv_app_nth)
    finally show ?thesis
      using i by (simp add: Let_def dr u)
  qed (simp add: Let_def)
qed (simp add: Let_def)

text \<open>
  C36. Resolving a name stores as many IPv4 addresses as the resolver found or the caller has
  room for, whichever is less, in their order and in host byte order, reports that number, and
  writes no other entry of the caller's array.
\<close>

theorem resolve_copies:
  assumes "\<And>hist. respond E hist (Net (SysGethostbyname name)) = r" and "r_addr r \<noteq> OFC_NULL"
    and "\<forall>h\<in>set (r_hosts r). length h = 4" and "unat num \<le> length ip"
  shows "yields (ofc_net_resolve_dns_name_impl E name num ip w) (\<lambda>((n, ip'), w').
    unat n = min (length (r_hosts r)) (unat num) \<and> length ip' = length ip \<and>
    (\<forall>i<length ip. ip' ! i =
      (if i < unat n then (ip ! i)\<lparr>ip_version := OFC_FAMILY_IP, ipv4_addr := NET_NTOL E (r_hosts r ! i)\<rparr> else ip ! i)) \<and>
    same_mem w w')"
proof -
  let ?k = "min (length (r_hosts r)) (unat num)"
  have "unat (of_nat ?k :: 16 word) = ?k"
    using unsigned_less [of num, where ?'a = nat] by (auto simp: unat_of_nat min_def)
  then show ?thesis
    using copy_hosts_take [OF assms(3,4), of 0 E] assms(2,4)
    by (auto simp: ofc_net_resolve_dns_name_impl_def call_known(1) [OF assms(1)] wp Let_def nth_append)
qed

section \<open>Services\<close>

text \<open>
  What the resolver says of each answer, which answers are services whose name expands, and the
  copies of names made so far, each with the address of its block, oldest first.
\<close>

definition srv_answers :: "env \<Rightarrow> (nat \<Rightarrow> resp) \<Rightarrow> (nat \<Rightarrow> resp) \<Rightarrow> bool" where
  "srv_answers E pr ex \<longleftrightarrow> (\<forall>hist i. respond E hist (Net (NsParserr i)) = pr i \<and>
     respond E hist (Net (DnExpand i MAXCDNAME)) = ex i)"

definition service :: "(nat \<Rightarrow> resp) \<Rightarrow> (nat \<Rightarrow> resp) \<Rightarrow> nat \<Rightarrow> bool" where
  "service pr ex i \<longleftrightarrow> r_ret (pr i) \<ge> 0 \<and> fst (r_pair (pr i)) = T_SRV \<and> r_ret (ex i) \<ge> 0"

fun copies :: "history \<Rightarrow> (byte list \<times> ptr) list" where
  "copies [] = []"
| "copies ((Core (Strdup b), r) # cs) = copies cs @ [(b, r_addr r)]"
| "copies (_ # cs) = copies cs"

definition expanded :: "(nat \<Rightarrow> resp) \<Rightarrow> nat list \<Rightarrow> ptr option list \<Rightarrow> world \<Rightarrow> ptr option list \<Rightarrow> world \<Rightarrow> bool" where
  "expanded ex ss dc w dc' w' \<longleftrightarrow> (\<exists>cs. copies (calls w') = copies (calls w) @ cs \<and>
     map fst cs = map (\<lambda>i. r_buf (ex i)) ss \<and> length dc' = length dc \<and>
     (\<forall>j. j \<notin> set ss \<longrightarrow> dc' ! j = dc ! j) \<and> (\<forall>m<length ss. dc' ! (ss ! m) = Some (snd (cs ! m))))"

lemma expanded_Cons:
  assumes "expanded ex ss (dc[i := Some p]) v dc' v'" and "copies (calls v) = copies (calls w) @ [(r_buf (ex i), p)]"
    and "i \<notin> set ss" "i < length dc"
  shows "expanded ex (i # ss) dc w dc' v'"
proof -
  from assms(1) obtain cs where cs: "copies (calls v') = copies (calls v) @ cs"
    "map fst cs = map (\<lambda>i. r_buf (ex i)) ss" "length dc' = length dc"
    "\<And>j. j \<notin> set ss \<Longrightarrow> dc' ! j = dc[i := Some p] ! j" "\<And>m. m < length ss \<Longrightarrow> dc' ! (ss ! m) = Some (snd (cs ! m))"
    by (auto simp: expanded_def)
  have "dc' ! ((i # ss) ! m) = Some (snd (((r_buf (ex i), p) # cs) ! m))" if "m < length (i # ss)" for m
    using that cs(5) cs(4) [OF assms(3)] assms(4) by (cases m) simp_all
  moreover have "dc' ! j = dc ! j" if "j \<notin> set (i # ss)" for j
    using that cs(4) [of j] by simp
  ultimately show ?thesis
    unfolding expanded_def using cs(1-3) assms(2) by (intro exI [of _ "(r_buf (ex i), p) # cs"]) simp
qed

lemma expanded_list:
  assumes "expanded ex ss (replicate m None) v dc v'" and "copies (calls v) = c0"
  shows "length dc = m \<and> (\<exists>cs. copies (calls v') = c0 @ cs \<and> map fst cs = map (\<lambda>i. r_buf (ex i)) ss \<and>
    (\<forall>k<length ss. dc ! (ss ! k) = Some (snd (cs ! k))) \<and> (\<forall>i<m. i \<notin> set ss \<longrightarrow> dc ! i = None))"
  using assms by (auto simp: expanded_def)

lemma expand_answers_expanded:
  assumes "srv_answers E pr ex"
  shows "i + k \<le> length dc \<Longrightarrow> expand_answers E k i dc w = (dc', w') \<Longrightarrow>
    expanded ex (filter (service pr ex) [i..<i + k]) dc w dc' w'"
proof (induction k arbitrary: i dc w)
  case 0
  then show ?case by (auto simp: expanded_def)
next
  case (Suc k)
  let ?ss = "filter (service pr ex) [Suc i..<Suc i + k]"
  have pr: "respond E hist (Net (NsParserr j)) = pr j" "respond E hist (Net (DnExpand j MAXCDNAME)) = ex j" for hist j
    using assms by (simp_all add: srv_answers_def)
  have upt: "filter (service pr ex) [i..<i + Suc k] = (if service pr ex i then i # ?ss else ?ss)"
    by (simp add: upt_conv_Cons del: upt_Suc)
  show ?case
  proof (cases "service pr ex i")
    case True
    define v where "v = logged (Net (DnExpand i MAXCDNAME)) (ex i) (logged (Net (NsParserr i)) (pr i) w)"
    define r where "r = respond E (calls v) (Core (Strdup (r_buf (ex i))))"
    have "expand_answers E k (Suc i) (dc[i := Some (r_addr r)]) (logged (Core (Strdup (r_buf (ex i)))) r v) = (dc', w')"
      using Suc.prems(2) True by (simp add: pr service_def call_def call_addr_def Let_def v_def r_def)
    then have "expanded ex ?ss (dc[i := Some (r_addr r)]) (logged (Core (Strdup (r_buf (ex i)))) r v) dc' w'"
      by (rule Suc.IH [rotated]) (use Suc.prems(1) in simp)
    then have "expanded ex (i # ?ss) dc w dc' w'"
      by (rule expanded_Cons) (use Suc.prems(1) in \<open>auto simp: v_def\<close>)
    then show ?thesis unfolding upt using True by simp
  next
    case False
    then obtain v where v: "expand_answers E k (Suc i) dc v = (dc', w')" "copies (calls v) = copies (calls w)"
      using Suc.prems(2) by (auto simp: pr service_def call_def call_addr_def Let_def split: if_splits)
    have "expanded ex ?ss dc v dc' w'"
      by (rule Suc.IH [OF _ v(1)]) (use Suc.prems(1) in simp)
    then show ?thesis
      unfolding upt using False v(2) by (simp add: expanded_def)
  qed
qed

text \<open>
  C37. Resolving a service whose reply fits the buffer and parses: the list has room for the
  square of the number of answers; one copy is made of the expanded name of every service record
  whose name expands, in the order of the answers, and the entry of that answer is the address
  of its copy; every other entry, that of a record whose name does not expand included, is
  memory that is never written.
\<close>

theorem svc_entries:
  assumes "srv_answers E pr ex"
    and "\<And>hist. r_ret (respond E hist (Net ResInit)) = 0"
    and "\<And>hist. r_ret (respond E hist (Net (ResSearch svc PACKETSZ))) = len" "0 \<le> len" "len \<le> PACKETSZ"
    and "\<And>hist. r_ret (respond E hist (Net (NsInitparse len))) \<ge> 0"
    and "\<And>hist. r_ret (respond E hist (Net NsMsgCount)) = int n" "\<And>hist. r_addr (respond E hist (Pkg Malloc)) \<noteq> OFC_NULL"
    and "ss = filter (service pr ex) [0..<n]"
  shows "yields (ofc_net_resolve_svc E svc w) (\<lambda>(x, w'). \<exists>dc cs. x = Some (n, dc) \<and> length dc = n * n \<and>
    copies (calls w') = copies (calls w) @ cs \<and> map fst cs = map (\<lambda>i. r_buf (ex i)) ss \<and>
    (\<forall>k<length ss. dc ! (ss ! k) = Some (snd (cs ! k))) \<and> (\<forall>i<n * n. i \<notin> set ss \<longrightarrow> dc ! i = None))"
proof -
  have sq: "n \<le> n * n" by (cases n) simp_all
  have done_so: "length d = n * n \<and> (\<exists>cs. copies (calls v') = copies (calls w) @ cs \<and> map fst cs = map (\<lambda>i. r_buf (ex i)) ss \<and>
    (\<forall>k<length ss. d ! (ss ! k) = Some (snd (cs ! k))) \<and> (\<forall>i<n * n. i \<notin> set ss \<longrightarrow> d ! i = None))"
    if "expand_answers E n 0 (replicate (n * n) None) v = (d, v')" "copies (calls v) = copies (calls w)" for v v' d
    by (rule expanded_list [OF _ that(2)]) (use expand_answers_expanded [OF assms(1) _ that(1)] sq assms(9) in simp)
  have ok: "\<not> r_ret (respond E hist (Net (NsInitparse len))) < 0" for hist using assms(6) [of hist] by simp
  show ?thesis
    using assms(4,5)
    by (simp add: ofc_net_resolve_svc_def call_def call_ret_def call_addr_def Let_def wp assms(2,3,7,8) ok
        split: prod.splits) (intro allI impI, rule done_so, assumption, simp)
qed

section \<open>Instances\<close>

text \<open>Three interfaces: loopback, the mobile network, which is not counted, and wireless.\<close>

definition lo_if :: ifreq where
  "lo_if = \<lparr>ifr_name = bytes ''lo'' @ replicate 14 0, ifr_family = 2\<rparr>"
definition wlan_if :: ifreq where
  "wlan_if = \<lparr>ifr_name = bytes ''wlan0'' @ replicate 11 0, ifr_family = 2\<rparr>"
definition rmnet_if :: ifreq where
  "rmnet_if = \<lparr>ifr_name = bytes ''rmnet0'' @ replicate 10 0, ifr_family = 2\<rparr>"

definition net_env :: env where
  "net_env = ref_env (\<lambda>hist c. case c of
     Pkg Malloc \<Rightarrow> no_resp\<lparr>r_addr := 64\<rparr>
   | Sys (SysSocket f t p) \<Rightarrow> no_resp\<lparr>r_ret := 5\<rparr>
   | Net (SysIfconf s n) \<Rightarrow> no_resp\<lparr>r_ifs := [lo_if, rmnet_if, wlan_if]\<rparr>
   | Net (SysIfflags s n) \<Rightarrow> no_resp\<lparr>r_flags := 1\<rparr>
   | Net (SysGethostbyname n) \<Rightarrow> no_resp\<lparr>r_addr := 96, r_hosts := [[10, 0, 0, 1], [10, 0, 0, 2]]\<rparr>
   | _ \<Rightarrow> no_resp\<lparr>r_buf := [2, 0, 0, 0, 192, 168, 0, 7, 0, 0, 0, 0, 0, 0, 0, 0]\<rparr>)"

lemma net_env_steady: "steady net_env 5 [lo_if, rmnet_if, wlan_if] ifr_name (\<lambda>p. no_resp\<lparr>r_flags := 1\<rparr>)"
  by (simp add: steady_def net_env_def ref_env_def no_resp_def lo_if_def rmnet_if_def wlan_if_def bytes_def)

lemma net_env_address:
  "answers_address net_env (SysIfaddr s n) 0xC0A80007" "answers_address net_env (SysIfbrdaddr s n) 0xC0A80007"
  "answers_address net_env (SysIfnetmask s n) 0xC0A80007"
  by (simp_all add: answers_address_def net_env_def ref_env_def no_resp_def)

lemma net_env_usable: "filter (usable net_env ifr_name (\<lambda>p. no_resp\<lparr>r_flags := 1\<rparr>)) [lo_if, rmnet_if, wlan_if] = [wlan_if]"
  by (simp add: usable_def named_def up_def net_env_def ref_env_def no_resp_def lo_if_def rmnet_if_def wlan_if_def bytes_def)

definition any_ip :: ipaddr where
  "any_ip = \<lparr>ip_version = OFC_FAMILY_IPV6, ipv4_addr = 0, s6_addr = [], ipv6_scope = 0\<rparr>"

theorem interface_indices_witness:
  "yields (do {
      (n, w) \<leftarrow> ofc_net_interface_count_impl net_env empty_world;
      ((a, b, m), w) \<leftarrow> ofc_net_interface_addr_impl net_env 0 (Some any_ip) (Some any_ip) (Some any_ip) w;
      Some ((n, a, b, m), w) })
    (\<lambda>((n, a, b, m), w'). n = 1 \<and> map_option ipv4_addr a = Some 0xC0A80007)"
  by (rule yields_mono [OF interface_indices [OF net_env_steady net_env_address]])
     (auto simp only: net_env_usable, auto)

theorem net_gives_back_witness:
  "\<exists>x w' n w''. ofc_net_interface_addr_impl net_env 0 None None None empty_world = Some (x, w') \<and>
    ofc_net_interface_count_impl net_env w' = Some (n, w'') \<and> opened (calls w'') 5 = 0 \<and> blocks (calls w'') 64 = 0"
proof -
  have "yields (do { (x, w) \<leftarrow> ofc_net_interface_addr_impl net_env 0 None None None empty_world;
      (n, w) \<leftarrow> ofc_net_interface_count_impl net_env w; Some (n, w) }) (\<lambda>_. True)"
    using net_env_steady
    by (auto simp: ofc_net_interface_addr_impl_def ofc_net_interface_count_impl_def steady_def ifconf_entries_def
        query_address_def Let_def wp call_def call_addr_def call_ret_def split: prod.splits option.splits)
  then obtain x w' n w'' where run: "ofc_net_interface_addr_impl net_env 0 None None None empty_world = Some (x, w')"
    "ofc_net_interface_count_impl net_env w' = Some (n, w'')"
    by (auto simp: yields_def bind_eq_Some_conv)
  from net_gives_back [OF this] show ?thesis using run by fastforce
qed

theorem resolve_copies_witness:
  "yields (ofc_net_resolve_dns_name_impl net_env (bytes ''host'') 1 [any_ip] empty_world)
    (\<lambda>((n, ip'), w'). n = 1 \<and> ipv4_addr (ip' ! 0) = 0x0A000001)"
proof -
  have r: "respond net_env hist (Net (SysGethostbyname n)) =
      no_resp\<lparr>r_addr := 96, r_hosts := [[10, 0, 0, 1], [10, 0, 0, 2]]\<rparr>" for hist n
    by (simp add: net_env_def)
  show ?thesis
    by (rule yields_mono [OF resolve_copies [OF r]])
       (auto simp: no_resp_def net_env_def ref_env_def word_unat_eq_iff)
qed

text \<open>Two answers, of which only the second is a service.\<close>

definition dns_env :: env where
  "dns_env = ref_env (\<lambda>hist c. case c of
     Net NsMsgCount \<Rightarrow> no_resp\<lparr>r_ret := 2\<rparr>
   | Net (NsParserr i) \<Rightarrow> no_resp\<lparr>r_pair := (if i = 1 then 33 else 5, 0)\<rparr>
   | Net (DnExpand i k) \<Rightarrow> no_resp\<lparr>r_buf := bytes ''dc''\<rparr>
   | Net s \<Rightarrow> no_resp
   | Core d \<Rightarrow> no_resp\<lparr>r_addr := of_nat (64 * (length hist + 1))\<rparr>
   | _ \<Rightarrow> no_resp\<lparr>r_addr := 64\<rparr>)"

theorem svc_entries_witness:
  "yields (ofc_net_resolve_svc dns_env (bytes ''kerberos'') empty_world)
    (\<lambda>(x, w'). \<exists>a. x = Some (2, [None, Some a, None, None]) \<and> copies (calls w') = [(bytes ''dc'', a)])"
proof -
  let ?pr = "\<lambda>i. no_resp\<lparr>r_pair := (if i = 1 then 33 else 5, 0)\<rparr>" and ?ex = "\<lambda>i. no_resp\<lparr>r_buf := bytes ''dc''\<rparr>"
  have pr: "srv_answers dns_env ?pr ?ex" by (simp add: srv_answers_def dns_env_def)
  have ss: "[1] = filter (service ?pr ?ex) [0..<2]" by (simp add: service_def no_resp_def upt_rec)
  have all_less_four: "(\<forall>i<4. P i) \<longleftrightarrow> P 0 \<and> P 1 \<and> P 2 \<and> P 3" for P :: "nat \<Rightarrow> bool"
    by (auto simp: eval_nat_numeral less_Suc_eq)
  have four: "\<exists>a b c d. dc = [a, b, c, d]" if "length dc = 4" for dc :: "ptr option list"
    using that by (auto simp: eval_nat_numeral length_Suc_conv)
  show ?thesis
    by (rule yields_mono [OF svc_entries [OF pr _ _ _ _ _ _ _ ss, of _ 0]])
       (auto simp: dns_env_def no_resp_def all_less_four dest!: four)
qed

end
