(* ===== verification/OFC_Time.thy ===== *)
theory OFC_Time
  imports OFC_Reference "HOL-Library.Signed_Division"
begin

text \<open>
  Clocks and calendars (src/src/time\_android.c). The two conversions between seconds since 1970
  and calendar fields are compared with the Gregorian calendar, given by its rule for leap years
  and the lengths of its months; the conversions to and from FAT dates are built on them.

  A \<open>long\<close> has 64 bits and never overflows here: the fields of a \<open>tm\<close> are \<open>int\<close>s. Remainders
  are compared with zero only, so the sign C gives them does not matter.
\<close>

section \<open>The operations\<close>

record tm =
  tm_sec :: int
  tm_min :: int
  tm_hour :: int
  tm_mday :: int
  tm_mon :: int
  tm_year :: int

definition DAYS_BEFORE_MONTH :: "int list" where
  "DAYS_BEFORE_MONTH = [0, 31, 59, 90, 120, 151, 181, 212, 243, 273, 304, 334]"

definition ISLEAP :: "int \<Rightarrow> bool" where
  "ISLEAP y \<longleftrightarrow> y mod 4 = 0 \<and> (y mod 100 \<noteq> 0 \<or> (y + 1900) mod 400 = 0)"

definition DAYS_IN_YEAR :: "int \<Rightarrow> int" where
  "DAYS_IN_YEAR year = (if ISLEAP year then 366 else 365)"

text \<open>The loop over the years before the given one. An index outside the table is undefined.\<close>

function add_years :: "int \<Rightarrow> int \<Rightarrow> int \<Rightarrow> int" where
  "add_years year limit days =
     (if year < limit then add_years (year + 1) limit (days + DAYS_IN_YEAR year) else days)"
  by pat_completeness auto
termination by (relation "measure (\<lambda>(year, limit, days). nat (limit - year))") auto

definition days_before :: "int \<Rightarrow> int option" where
  "days_before mon = (if 0 \<le> mon \<and> mon < 12 then Some (DAYS_BEFORE_MONTH ! nat mon) else None)"

definition ofc_time_make_time :: "tm \<Rightarrow> 32 word option" where
  "ofc_time_make_time tm = do {
     let tim = (word_of_int (tm_sec tm + tm_min tm * 60 + tm_hour tm * 3600) :: 32 word);
     before \<leftarrow> days_before (tm_mon tm);
     let days = (tm_mday tm - 1) + before;
     let days = (if tm_mon tm > 1 \<and> DAYS_IN_YEAR (tm_year tm) = 366 then days + 1 else days);
     let days = (if tm_year tm > 70 then add_years 70 (tm_year tm) days else days);
     Some (word_of_int (uint tim + days * 86400))
   }"

text \<open>The two loops of \<open>ofc_time_local_time\<close>: the year, and the month of a day of the year.\<close>

function find_year :: "int \<Rightarrow> int \<Rightarrow> int \<times> int" where
  "find_year year days =
     (if days \<ge> DAYS_IN_YEAR year then find_year (year + 1) (days - DAYS_IN_YEAR year)
      else (year, days))"
  by pat_completeness auto
termination by (relation "measure (\<lambda>(year, days). nat days)") (auto simp: DAYS_IN_YEAR_def split: if_splits)

function find_month :: "nat \<Rightarrow> int \<Rightarrow> nat" where
  "find_month mon days =
     (if mon < 11 \<and> days \<ge> DAYS_BEFORE_MONTH ! (mon + 1) then find_month (mon + 1) days else mon)"
  by pat_completeness auto
termination by (relation "measure (\<lambda>(mon, days). 11 - mon)") auto

declare add_years.simps [simp del] find_year.simps [simp del] find_month.simps [simp del]

definition ofc_time_local_time :: "32 word \<Rightarrow> tm" where
  "ofc_time_local_time time =
     (let ticks_in_day = uint time mod 86400;
          (year, days_in_year) = find_year 70 (uint time div 86400);
          (mon, days_in_year) =
            (if DAYS_IN_YEAR year = 366 then
               if days_in_year = DAYS_BEFORE_MONTH ! 2 then (1, days_in_year)
               else let days_in_year =
                      (if days_in_year > DAYS_BEFORE_MONTH ! 2 then days_in_year - 1 else days_in_year)
                    in (find_month 0 days_in_year, days_in_year)
             else (find_month 0 days_in_year, days_in_year));
          ticks_in_hour = ticks_in_day mod 3600
      in \<lparr>tm_sec = ticks_in_hour mod 60, tm_min = ticks_in_hour div 60,
          tm_hour = ticks_in_day div 3600,
          tm_mday = days_in_year - DAYS_BEFORE_MONTH ! mon + 1, tm_mon = int mon, tm_year = year\<rparr>)"

text \<open>
  The clocks. The width of \<open>OFC_MSTIME\<close> is set in a header outside this repository, so these
  hold for every width. \<open>localtime\<close> returns a pointer to the broken-down time, whose offset from
  GMT is the answer's \<open>int\<close>; C's division of it rounds towards zero.
\<close>

definition ofc_time_get_now_impl :: "env \<Rightarrow> world \<Rightarrow> 'w::len word \<times> world" where
  "ofc_time_get_now_impl E w =
     (let (r, w) = call E (Clock SysGettimeofday) w; (tv_sec, tv_usec) = r_pair r
      in (word_of_int (tv_sec * 1000) + word_of_int (tv_usec sdiv 1000), w))"

definition ofc_time_get_file_time_impl :: "env \<Rightarrow> world \<Rightarrow> filetime \<times> world" where
  "ofc_time_get_file_time_impl E w =
     (let (tv_sec, w) = call_ret E (Clock SysTime) w
      in (epoch_time_to_file_time E (word_of_int tv_sec) 0, w))"

definition ofc_time_get_timezone_impl :: "env \<Rightarrow> world \<Rightarrow> (16 word) result" where
  "ofc_time_get_timezone_impl E w =
     (let (ts, w) = call_ret E (Clock SysTime) w;
          (gm, w) = call E (Clock (SysLocaltime ts)) w
      in if r_addr gm = OFC_NULL then None else Some (word_of_int (r_ret gm sdiv 60), w))"

definition ofc_get_runtime_impl :: "env \<Rightarrow> world \<Rightarrow> 'w::len word \<times> world" where
  "ofc_get_runtime_impl E w =
     (let (r, w) = call E (Clock SysGetrusage) w;
          (u_sec, u_usec) = r_pair r; (s_sec, s_usec) = r_pair2 r
      in (if r_ret r = 0 then word_of_int ((u_sec + s_sec) * 1000000 + (u_usec + s_usec)) else 0, w))"

text \<open>FAT dates. The seconds are truncated to 32 bits, the fields to the 16 bits of a \<open>OFC_UINT16\<close>.\<close>

definition ofc_file_time_to_dos_date_time_impl :: "env \<Rightarrow> filetime \<Rightarrow> 16 word \<times> 16 word" where
  "ofc_file_time_to_dos_date_time_impl E ft =
     (let (tv_sec, tv_nsec) = file_time_to_epoch_time E ft;
          tm = ofc_time_local_time (ucast tv_sec)
      in elements_to_dos_date_time E
           (word_of_int (tm_mon tm + 1), word_of_int (tm_mday tm), word_of_int (tm_year tm + 1900),
            word_of_int (tm_hour tm), word_of_int (tm_min tm), word_of_int (tm_sec tm)))"

definition ofc_dos_date_time_to_file_time_impl :: "env \<Rightarrow> 16 word \<Rightarrow> 16 word \<Rightarrow> filetime option" where
  "ofc_dos_date_time_to_file_time_impl E FatDate FatTime =
     (case dos_date_time_to_elements E (FatDate, FatTime) of (mon, day, year, hour, mins, sec) \<Rightarrow> do {
        tv_sec \<leftarrow> ofc_time_make_time
          \<lparr>tm_sec = uint sec, tm_min = uint mins, tm_hour = uint hour,
           tm_mday = uint day, tm_mon = uint mon - 1, tm_year = uint year - 1900\<rparr>;
        Some (epoch_time_to_file_time E (ucast tv_sec) 0)
      })"

section \<open>The Gregorian calendar\<close>

text \<open>
  The reference: leap years, the lengths of the months, the days before a year from the start of
  the calendar, and the seconds from 1970 to a date and time of day.
\<close>

definition leap_year :: "int \<Rightarrow> bool" where
  "leap_year Y \<longleftrightarrow> Y mod 400 = 0 \<or> Y mod 4 = 0 \<and> Y mod 100 \<noteq> 0"

definition month_length :: "int \<Rightarrow> nat \<Rightarrow> int" where
  "month_length Y m = (if m = 2 then (if leap_year Y then 29 else 28)
                       else if m \<in> {4, 6, 9, 11} then 30 else 31)"

definition year_start :: "int \<Rightarrow> int" where
  "year_start Y = 365 * (Y - 1) + (Y - 1) div 4 - (Y - 1) div 100 + (Y - 1) div 400"

definition day_of_year :: "int \<Rightarrow> nat \<Rightarrow> int \<Rightarrow> int" where
  "day_of_year Y m d = sum_list (map (month_length Y) [1..<m]) + d - 1"

definition epoch_seconds :: "tm \<Rightarrow> int" where
  "epoch_seconds tm =
     86400 * (year_start (tm_year tm + 1900) - year_start 1970
              + day_of_year (tm_year tm + 1900) (nat (tm_mon tm) + 1) (tm_mday tm))
     + 3600 * tm_hour tm + 60 * tm_min tm + tm_sec tm"

definition valid_tm :: "tm \<Rightarrow> bool" where
  "valid_tm tm \<longleftrightarrow>
     0 \<le> tm_sec tm \<and> tm_sec tm < 60 \<and> 0 \<le> tm_min tm \<and> tm_min tm < 60 \<and>
     0 \<le> tm_hour tm \<and> tm_hour tm < 24 \<and> 0 \<le> tm_mon tm \<and> tm_mon tm < 12 \<and> 70 \<le> tm_year tm \<and>
     1 \<le> tm_mday tm \<and> tm_mday tm \<le> month_length (tm_year tm + 1900) (nat (tm_mon tm) + 1)"

section \<open>The loops\<close>

lemma mod_400: "Y mod 400 = 0 \<Longrightarrow> Y mod 100 = 0 \<and> Y mod 4 = 0" for Y :: int
  using dvd_trans [of 100 400 Y] dvd_trans [of 4 400 Y] by (simp add: dvd_eq_mod_eq_0)

lemma mod_100: "Y mod 100 = 0 \<Longrightarrow> Y mod 4 = 0" for Y :: int
  using dvd_trans [of 4 100 Y] by (simp add: dvd_eq_mod_eq_0)

lemma ISLEAP_leap_year: "ISLEAP y = leap_year (y + 1900)"
proof -
  have "(y + 1900) mod 4 = y mod 4" "(y + 1900) mod 100 = y mod 100"
    using mod_add_eq [of y 4 1900] mod_add_eq [of y 100 1900] by simp_all
  then show ?thesis
    using mod_400 [of "y + 1900"] by (auto simp: ISLEAP_def leap_year_def)
qed

lemma div_step:
  fixes Y n :: int
  assumes "0 < n" shows "Y div n = (Y - 1) div n + (if Y mod n = 0 then 1 else 0)"
proof (cases "Y mod n = 0")
  case True
  then have "Y - 1 = n * (Y div n - 1) + (n - 1)"
    using mult_div_mod_eq [of n Y] by (simp add: algebra_simps)
  from int_div_pos_eq [OF this] assms have "(Y - 1) div n = Y div n - 1" by linarith
  with True show ?thesis by simp
next
  case False
  then have "0 \<le> Y mod n - 1" "Y mod n - 1 < n"
    using assms pos_mod_sign [of n Y] pos_mod_bound [of n Y] by linarith+
  moreover have "Y - 1 = n * (Y div n) + (Y mod n - 1)"
    using mult_div_mod_eq [of n Y] by linarith
  ultimately have "(Y - 1) div n = Y div n" by (metis int_div_pos_eq)
  with False show ?thesis by simp
qed

lemma year_days_arith:
  fixes Y :: int
  assumes "a = a' + i" "b = b' + j" "c = c' + k"
  shows "365 * Y + a - b + c = 365 * (Y - 1) + a' - b' + c' + 365 + i - j + k"
  using assms by simp

lemma leap_day_arith:
  fixes z :: int
  assumes "z = y + 365 + i - j + k" and "i - j + k = (if P then 1 else 0)"
  shows "z = y + (if P then 366 else 365)"
  using assms by (simp split: if_splits)

lemma year_start_step: "year_start (Y + 1) = year_start Y + (if leap_year Y then 366 else 365)"
proof -
  let ?leap = "\<lambda>n. if Y mod n = 0 then 1 else 0 :: int"
  have "year_start (Y + 1) = year_start Y + 365 + ?leap 4 - ?leap 100 + ?leap 400"
    unfolding year_start_def add_diff_cancel_right' by (rule year_days_arith; rule div_step; simp)
  moreover have "?leap 4 - ?leap 100 + ?leap 400 = (if leap_year Y then 1 else 0)"
    using mod_400 [of Y] mod_100 [of Y] unfolding leap_year_def by (auto split: if_split)
  ultimately show ?thesis by (rule leap_day_arith)
qed

lemma DAYS_IN_YEAR_start: "DAYS_IN_YEAR y = year_start (1901 + y) - year_start (y + 1900)"
  using year_start_step [of "y + 1900"] by (simp add: DAYS_IN_YEAR_def ISLEAP_leap_year)

lemma add_years_start:
  "year \<le> limit \<Longrightarrow> add_years year limit days = days + year_start (limit + 1900) - year_start (year + 1900)"
proof (induction year limit days rule: add_years.induct)
  case (1 year limit days)
  then show ?case
    by (cases "year < limit") (auto simp: add_years.simps [of year] add_years.simps [of limit] DAYS_IN_YEAR_start)
qed

lemma find_year_start:
  "0 \<le> days \<Longrightarrow> find_year year days = (y, d) \<Longrightarrow>
   year \<le> y \<and> 0 \<le> d \<and> d < DAYS_IN_YEAR y \<and>
   year_start (y + 1900) + d = year_start (year + 1900) + days"
proof (induction year days rule: find_year.induct)
  case (1 year days)
  then show ?case
    by (cases "days \<ge> DAYS_IN_YEAR year") (auto simp: find_year.simps [of year] DAYS_IN_YEAR_start)
qed

lemma find_month_bounds:
  "mon \<le> 11 \<Longrightarrow> DAYS_BEFORE_MONTH ! mon \<le> days \<Longrightarrow>
   find_month mon days \<le> 11 \<and> DAYS_BEFORE_MONTH ! find_month mon days \<le> days \<and>
   (find_month mon days < 11 \<longrightarrow> days < DAYS_BEFORE_MONTH ! (find_month mon days + 1))"
proof (induction mon days rule: find_month.induct)
  case (1 mon days)
  then show ?case
    by (cases "mon < 11 \<and> days \<ge> DAYS_BEFORE_MONTH ! (mon + 1)") (auto simp: find_month.simps [of mon])
qed

text \<open>The table of the code is the sum of the lengths of the months before.\<close>

lemma nat_le_11: "m \<le> (11::nat) \<longleftrightarrow> m \<in> {0, 1, 2, 3, 4, 5, 6, 7, 8, 9, 10, 11}"
  by (simp only: insert_iff empty_iff) presburger

lemma upt_months:
  "[Suc 0..<2] = [1]" "[Suc 0..<3] = [1, 2]" "[Suc 0..<4] = [1, 2, 3]" "[Suc 0..<5] = [1, 2, 3, 4]"
  "[Suc 0..<6] = [1, 2, 3, 4, 5]" "[Suc 0..<7] = [1, 2, 3, 4, 5, 6]" "[Suc 0..<8] = [1, 2, 3, 4, 5, 6, 7]"
  "[Suc 0..<9] = [1, 2, 3, 4, 5, 6, 7, 8]" "[Suc 0..<10] = [1, 2, 3, 4, 5, 6, 7, 8, 9]"
  "[Suc 0..<11] = [1, 2, 3, 4, 5, 6, 7, 8, 9, 10]" "[Suc 0..<12] = [1, 2, 3, 4, 5, 6, 7, 8, 9, 10, 11]"
  by (simp_all add: upt_rec)

lemma day_of_year_table:
  assumes "m \<le> 11"
  shows "day_of_year Y (m + 1) d =
    DAYS_BEFORE_MONTH ! m + (if m > 1 \<and> leap_year Y then 1 else 0) + d - 1"
  using assms unfolding nat_le_11
  by (elim insertE emptyE)
     (simp_all add: day_of_year_def DAYS_BEFORE_MONTH_def month_length_def upt_months)
section \<open>Both conversions against the calendar\<close>

lemma word_of_uint_add: "word_of_int (uint (word_of_int a :: 'w::len word) + b) = (word_of_int (a + b) :: 'w word)"
  by (metis wi_hom_add word_of_int_uint)

lemma make_time_epoch:
  assumes "valid_tm tm"
  shows "ofc_time_make_time tm = Some (word_of_int (epoch_seconds tm))"
proof -
  let ?m = "nat (tm_mon tm)"
  have m: "tm_mon tm = int ?m" "?m \<le> 11" and y: "70 \<le> tm_year tm"
    using assms by (auto simp: valid_tm_def)
  have years: "(if tm_year tm > 70 then add_years 70 (tm_year tm) d else d)
      = d + year_start (tm_year tm + 1900) - year_start 1970" for d
    using add_years_start [of 70 "tm_year tm" d] y by (cases "tm_year tm = 70") auto
  have leap: "DAYS_IN_YEAR (tm_year tm) = 366 \<longleftrightarrow> leap_year (tm_year tm + 1900)"
    by (simp add: DAYS_IN_YEAR_def ISLEAP_leap_year)
  have before: "days_before (tm_mon tm) = Some (DAYS_BEFORE_MONTH ! ?m)"
    using assms by (simp add: days_before_def valid_tm_def)
  have mon: "1 < tm_mon tm \<longleftrightarrow> 1 < ?m" by linarith
  show ?thesis
    unfolding ofc_time_make_time_def Let_def before bind.bind_lunit years leap mon epoch_seconds_def
      day_of_year_table [OF m(2)]
    unfolding word_of_uint_add
    by (rule arg_cong [where f = "\<lambda>i. Some (word_of_int i)"]) (simp add: algebra_simps)
qed

lemma find_month_days:
  assumes "0 \<le> d" "d < 365"
  shows "find_month 0 d \<le> 11" "DAYS_BEFORE_MONTH ! find_month 0 d \<le> d"
    "find_month 0 d < 11 \<longrightarrow> d < DAYS_BEFORE_MONTH ! (find_month 0 d + 1)"
proof -
  have "(0::nat) \<le> 11" "DAYS_BEFORE_MONTH ! 0 \<le> d"
    using assms by (simp_all add: DAYS_BEFORE_MONTH_def)
  from find_month_bounds [OF this]
  show "find_month 0 d \<le> 11" "DAYS_BEFORE_MONTH ! find_month 0 d \<le> d"
    "find_month 0 d < 11 \<longrightarrow> d < DAYS_BEFORE_MONTH ! (find_month 0 d + 1)" by blast+
qed

text \<open>A month's length from the table: the days up to the next month, and the leap day.\<close>

lemma month_length_table:
  assumes "m \<le> 11"
  shows "month_length Y (m + 1) =
    (if m = 11 then 365 else DAYS_BEFORE_MONTH ! (m + 1)) - DAYS_BEFORE_MONTH ! m
    + (if m = 1 \<and> leap_year Y then 1 else 0)"
  using assms unfolding nat_le_11
  by (elim insertE emptyE) (simp_all add: DAYS_BEFORE_MONTH_def month_length_def)

text \<open>The month and day that the code finds for a day of a year.\<close>

definition split_day :: "int \<Rightarrow> int \<Rightarrow> nat \<times> int" where
  "split_day year d =
     (if DAYS_IN_YEAR year = 366 then
        if d = DAYS_BEFORE_MONTH ! 2 then (1, d)
        else let d = (if d > DAYS_BEFORE_MONTH ! 2 then d - 1 else d) in (find_month 0 d, d)
      else (find_month 0 d, d))"

lemma split_day_calendar:
  assumes "0 \<le> d" "d < DAYS_IN_YEAR year" "split_day year d = (m, d')"
  shows "m \<le> 11 \<and> 1 \<le> d' - DAYS_BEFORE_MONTH ! m + 1 \<and>
    d' - DAYS_BEFORE_MONTH ! m + 1 \<le> month_length (year + 1900) (m + 1) \<and>
    day_of_year (year + 1900) (m + 1) (d' - DAYS_BEFORE_MONTH ! m + 1) = d"
proof -
  let ?Y = "year + 1900" and ?T = "\<lambda>m. DAYS_BEFORE_MONTH ! m"
  have T: "?T 2 = 59" "?T (Suc (Suc 0)) = 59" "?T 1 = 31" "?T (Suc 0) = 31" "?T 0 = 0" by (simp_all add: DAYS_BEFORE_MONTH_def)
  have late: "?T k \<ge> 59" if "k > 1" "k \<le> 11" for k
    using that(2,1) unfolding nat_le_11 by (elim insertE emptyE) (simp_all add: DAYS_BEFORE_MONTH_def)
  have early: "?T k \<le> 31" if "k \<le> 1" for k
    using that T by (cases "k = 0") (auto simp: le_Suc_eq)
  show ?thesis
  proof (cases "leap_year ?Y \<and> d = 59")
    case True
    then have "m = 1" "d' = d"
      using assms(3) by (simp_all add: split_day_def DAYS_IN_YEAR_def ISLEAP_leap_year T)
    with True show ?thesis
      by (simp add: T day_of_year_table [of 1, simplified] month_length_def)
  next
    case False
    define e where "e = (if leap_year ?Y \<and> d > 59 then d - 1 else d)"
    have e: "0 \<le> e" "e < 365"
      using False assms(1,2) by (auto simp: e_def DAYS_IN_YEAR_def ISLEAP_leap_year split: if_splits)
    have md: "m = find_month 0 e" "d' = e"
      using assms(3) False
      by (auto simp: split_day_def DAYS_IN_YEAR_def ISLEAP_leap_year T Let_def e_def split: if_splits)
    note fm = find_month_days [OF e, folded md(1)]
    have leap: "1 < m \<longleftrightarrow> e \<ge> 59"
      using fm late [of m] early [of m] T by (cases "m = 1"; cases "m = 0") auto
    have "d = e + (if m > 1 \<and> leap_year ?Y then 1 else 0)"
      using False leap by (auto simp: e_def split: if_splits)
    moreover have "e - ?T m < month_length ?Y (m + 1)"
      using fm e(2) unfolding month_length_table [OF fm(1)] by (cases "m = 11") auto
    ultimately show ?thesis
      using fm unfolding md(2) day_of_year_table [OF fm(1)] by auto
  qed
qed

lemma local_time_calendar:
  "valid_tm (ofc_time_local_time t) \<and> epoch_seconds (ofc_time_local_time t) = uint t"
proof -
  obtain y d where yd: "find_year 70 (uint t div 86400) = (y, d)" by fastforce
  obtain m d' where md: "split_day y d = (m, d')" by fastforce
  have year: "70 \<le> y" "0 \<le> d" "d < DAYS_IN_YEAR y"
    "year_start (y + 1900) + d = year_start 1970 + uint t div 86400"
    using find_year_start [OF _ yd] by (simp_all add: div_int_pos_iff)
  note month = split_day_calendar [OF year(2,3) md]
  let ?s = "uint t mod 86400"
  have tm: "ofc_time_local_time t =
    \<lparr>tm_sec = ?s mod 3600 mod 60, tm_min = ?s mod 3600 div 60, tm_hour = ?s div 3600,
     tm_mday = d' - DAYS_BEFORE_MONTH ! m + 1, tm_mon = int m, tm_year = y\<rparr>"
    using yd md by (simp add: ofc_time_local_time_def split_day_def Let_def split: if_splits)
  have "0 \<le> ?s" "?s < 86400" by simp_all
  then have "0 \<le> ?s div 3600" "?s div 3600 < 24" "?s mod 3600 div 60 < 60"
    using zdiv_mono1 [of ?s 86399 3600] zdiv_mono1 [of "?s mod 3600" 3599 60] pos_mod_bound [of 3600 ?s]
    by (simp_all add: div_int_pos_iff)
  moreover have "?s mod 3600 mod 60 < 60" "0 \<le> ?s mod 3600 mod 60" "0 \<le> ?s mod 3600 div 60"
    by (simp_all add: div_int_pos_iff)
  ultimately have valid: "valid_tm (ofc_time_local_time t)"
    using year(1) month by (simp add: tm valid_tm_def)
  have days: "a - b + d = q" if "a + d = b + q" for a b d q :: int
    using that by simp
  have secs: "3600 * (s div 3600) + 60 * (s mod 3600 div 60) + s mod 3600 mod 60 = s" for s :: int
    using mult_div_mod_eq [of 3600 s] mult_div_mod_eq [of 60 "s mod 3600"] by simp
  have "epoch_seconds (ofc_time_local_time t) = 86400 * (uint t div 86400) +
      3600 * (?s div 3600) + 60 * (?s mod 3600 div 60) + ?s mod 3600 mod 60"
    using month by (simp only: tm epoch_seconds_def tm.simps nat_int days [OF year(4)])
  also have "\<dots> = uint t"
    using secs [of ?s] mult_div_mod_eq [of 86400 "uint t"] by (simp only: add.assoc)
  finally show ?thesis using valid by blast
qed
section \<open>A time has one calendar form\<close>

lemma year_start_mono:
  assumes "Y < Y'" shows "year_start Y + (if leap_year Y then 366 else 365) \<le> year_start Y'"
  using assms
proof (induction Y' rule: int_gr_induct)
  case base
  then show ?case by (simp only: year_start_step order_refl)
next
  case (step i)
  then show ?case using year_start_step [of i] by (auto split: if_splits)
qed

lemma table_mono: "m \<le> m' \<Longrightarrow> m' \<le> 11 \<Longrightarrow> DAYS_BEFORE_MONTH ! m \<le> DAYS_BEFORE_MONTH ! m'"
  by (rule sorted_nth_mono) (simp_all add: DAYS_BEFORE_MONTH_def)

lemma day_of_year_less:
  assumes "m < m'" "m' \<le> 11" "d \<le> month_length Y (m + 1)" "1 \<le> d'"
  shows "day_of_year Y (m + 1) d < day_of_year Y (m' + 1) d'"
proof -
  have m: "m \<le> 11" "m \<noteq> 11" using assms by simp_all
  have "DAYS_BEFORE_MONTH ! (m + 1) \<le> DAYS_BEFORE_MONTH ! m'"
    using assms by (intro table_mono) simp_all
  then show ?thesis
    using assms(1,3,4) m(2) unfolding day_of_year_table [OF m(1)] day_of_year_table [OF assms(2)]
      month_length_table [OF m(1)]
    by (simp split: if_splits)
qed

lemma day_of_year_range:
  assumes "m \<le> 11" "1 \<le> d" "d \<le> month_length Y (m + 1)"
  shows "0 \<le> day_of_year Y (m + 1) d" "day_of_year Y (m + 1) d < (if leap_year Y then 366 else 365)"
proof -
  have "DAYS_BEFORE_MONTH ! 0 \<le> DAYS_BEFORE_MONTH ! m" "DAYS_BEFORE_MONTH ! 0 = 0"
    using assms(1) by (intro table_mono; simp) (simp add: DAYS_BEFORE_MONTH_def)
  moreover have "m \<noteq> 11 \<Longrightarrow> DAYS_BEFORE_MONTH ! (m + 1) \<le> DAYS_BEFORE_MONTH ! 11" "DAYS_BEFORE_MONTH ! 11 = 334"
    using assms(1) by (intro table_mono; simp) (simp add: DAYS_BEFORE_MONTH_def)
  ultimately show "0 \<le> day_of_year Y (m + 1) d" "day_of_year Y (m + 1) d < (if leap_year Y then 366 else 365)"
    using assms(2,3) unfolding day_of_year_table [OF assms(1)] month_length_table [OF assms(1)]
    by (auto split: if_splits)
qed

lemma mixed_radix:
  fixes q q' r r' n :: int
  assumes "n * q + r = n * q' + r'" "0 \<le> r" "r < n" "0 \<le> r'" "r' < n"
  shows "q = q' \<and> r = r'"
  using int_div_pos_eq [of "n * q + r" n q r] int_div_pos_eq [of "n * q' + r'" n q' r'] assms by simp

lemma epoch_seconds_unique:
  assumes "valid_tm a" "valid_tm b" "epoch_seconds a = epoch_seconds b"
  shows "a = b"
proof -
  let ?tod = "\<lambda>t. 3600 * tm_hour t + (60 * tm_min t + tm_sec t)"
  let ?Y = "\<lambda>t. tm_year t + 1900" and ?m = "\<lambda>t. nat (tm_mon t)"
  let ?doy = "\<lambda>t. day_of_year (?Y t) (?m t + 1) (tm_mday t)"
  have m: "?m a \<le> 11" "?m b \<le> 11" using assms(1,2) by (auto simp: valid_tm_def)
  have eq: "86400 * (year_start (?Y a) - year_start 1970 + ?doy a) + ?tod a =
      86400 * (year_start (?Y b) - year_start 1970 + ?doy b) + ?tod b"
    using assms(3) by (simp only: epoch_seconds_def add.assoc)
  have range: "0 \<le> ?tod t" "?tod t < 86400" if "valid_tm t" for t
    using that by (auto simp: valid_tm_def)
  note split = mixed_radix [OF eq range(1) [OF assms(1)] range(2) [OF assms(1)]
      range(1) [OF assms(2)] range(2) [OF assms(2)]]
  then have days: "year_start (?Y a) + ?doy a = year_start (?Y b) + ?doy b"
    by linarith
  have tod: "?tod a = ?tod b" using split by blast
  have "tm_hour a = tm_hour b \<and> 60 * tm_min a + tm_sec a = 60 * tm_min b + tm_sec b"
    by (rule mixed_radix [OF tod]) (use assms(1,2) in \<open>auto simp: valid_tm_def\<close>)
  then have time: "tm_hour a = tm_hour b" "tm_min a = tm_min b" "tm_sec a = tm_sec b"
    using mixed_radix [of 60 "tm_min a" "tm_sec a" "tm_min b" "tm_sec b"] assms(1,2)
    by (auto simp: valid_tm_def)
  have doy: "0 \<le> ?doy t" "?doy t < (if leap_year (?Y t) then 366 else 365)" if "valid_tm t" for t
    using that day_of_year_range [of "?m t" "tm_mday t" "?Y t"] by (auto simp: valid_tm_def)
  have Y: "?Y a = ?Y b"
    using days doy [OF assms(1)] doy [OF assms(2)] year_start_mono [of "?Y a" "?Y b"]
      year_start_mono [of "?Y b" "?Y a"] by (cases "?Y a" "?Y b" rule: linorder_cases) auto
  then have "?doy a = ?doy b" using days by simp
  moreover have "?doy a \<noteq> ?doy b" if "?m a < ?m b"
    using day_of_year_less [OF that m(2), of "tm_mday a" "?Y a" "tm_mday b"] assms(1,2) Y by (simp add: valid_tm_def)
  moreover have "?doy a \<noteq> ?doy b" if "?m b < ?m a"
    using day_of_year_less [OF that m(1), of "tm_mday b" "?Y b" "tm_mday a"] assms(1,2) Y by (simp add: valid_tm_def)
  ultimately have "?m a = ?m b" "tm_mday a = tm_mday b"
    using Y unfolding atomize_conj by (cases "?m a" "?m b" rule: linorder_cases) (auto simp: day_of_year_def)
  moreover have "0 \<le> tm_mon a" "0 \<le> tm_mon b" using assms(1,2) by (simp_all add: valid_tm_def)
  ultimately show ?thesis using time Y by (intro tm.equality) simp_all
qed

section \<open>The properties\<close>

text \<open>
  C3. For every 32-bit number of seconds since 1970, the calendar fields the code computes form
  a valid Gregorian date and time of day, denote exactly that number of seconds by the rules of
  the calendar, and are converted back to it.
\<close>

theorem local_time_inverse:
  "valid_tm (ofc_time_local_time t) \<and> epoch_seconds (ofc_time_local_time t) = uint t \<and>
   ofc_time_make_time (ofc_time_local_time t) = Some t"
  using local_time_calendar [of t] make_time_epoch [of "ofc_time_local_time t"] by simp

text \<open>
  C4. Every valid date from 1970 on whose seconds fit in 32 bits is converted to its seconds by
  the rules of the calendar, and those are converted back to the same fields.
\<close>

theorem make_time_inverse:
  assumes "valid_tm tm" and "epoch_seconds tm < 2 ^ 32"
  shows "yields (ofc_time_make_time tm) (\<lambda>t. uint t = epoch_seconds tm \<and> ofc_time_local_time t = tm)"
proof -
  let ?t = "word_of_int (epoch_seconds tm) :: 32 word"
  have "0 \<le> epoch_seconds tm"
  proof -
    have "year_start 1970 \<le> year_start (tm_year tm + 1900)"
      using assms(1) year_start_mono [of 1970 "tm_year tm + 1900"]
      by (cases "tm_year tm = 70") (auto simp: valid_tm_def split: if_splits)
    moreover have "0 \<le> day_of_year (tm_year tm + 1900) (nat (tm_mon tm) + 1) (tm_mday tm)"
      using assms(1) by (intro day_of_year_range(1)) (auto simp: valid_tm_def)
    ultimately show ?thesis using assms(1) by (simp add: epoch_seconds_def valid_tm_def)
  qed
  then have u: "uint ?t = epoch_seconds tm"
    using assms(2) by (simp add: uint_word_of_int)
  then have "ofc_time_local_time ?t = tm"
    using local_time_calendar [of ?t] by (intro epoch_seconds_unique assms(1)) simp_all
  then show ?thesis
    using u by (simp add: make_time_epoch [OF assms(1)] wp)
qed
text \<open>
  The core's FAT conversions keep the fields that fit their bits, and seconds in steps of two.
\<close>

definition dos_codec_ok :: "env \<Rightarrow> bool" where
  "dos_codec_ok E \<longleftrightarrow> (\<forall>mon day year hour mins sec.
     mon < 16 \<and> day < 32 \<and> 1980 \<le> year \<and> year < 2108 \<and> hour < 32 \<and> mins < 64 \<and> sec < 64 \<longrightarrow>
     dos_date_time_to_elements E (elements_to_dos_date_time E (mon, day, year, hour, mins, sec)) =
       (mon, day, year, hour, mins, sec - sec mod 2))"

lemma year_of_seconds:
  assumes "valid_tm tm" "315532800 \<le> epoch_seconds tm" "epoch_seconds tm < 2 ^ 32"
  shows "1980 \<le> tm_year tm + 1900" "tm_year tm + 1900 < 2108"
proof -
  let ?Y = "tm_year tm + 1900" and ?tod = "3600 * tm_hour tm + 60 * tm_min tm + tm_sec tm"
  define d where "d = day_of_year ?Y (nat (tm_mon tm) + 1) (tm_mday tm)"
  have d: "0 \<le> d" "d < (if leap_year ?Y then 366 else 365)"
    unfolding d_def using assms(1) by (intro day_of_year_range; auto simp: valid_tm_def)+
  have tod: "0 \<le> ?tod" "?tod < 86400" using assms(1) by (auto simp: valid_tm_def)
  have e: "epoch_seconds tm = 86400 * year_start ?Y - 86400 * year_start 1970 + 86400 * d + ?tod"
    by (simp add: epoch_seconds_def d_def)
  have at: "year_start 1980 = year_start 1970 + 3652" "year_start 2108 = year_start 1970 + 50403"
    by (simp_all add: year_start_def)
  show "1980 \<le> ?Y"
  proof (rule ccontr)
    assume "\<not> 1980 \<le> ?Y"
    then have "year_start ?Y + d < year_start 1980"
      using year_start_mono [of ?Y 1980] d by (auto split: if_splits)
    then show False using tod e at assms(2) by linarith
  qed
  show "?Y < 2108"
  proof (rule ccontr)
    assume "\<not> ?Y < 2108"
    then have "year_start 2108 \<le> year_start ?Y"
      using year_start_mono [of 2108 ?Y] by (cases "tm_year tm = 208") (auto split: if_splits)
    then show False using d(1) tod e at assms(3) by simp
  qed
qed

lemma epoch_seconds_even:
  "epoch_seconds (tm\<lparr>tm_sec := tm_sec tm - tm_sec tm mod 2\<rparr>) = epoch_seconds tm - epoch_seconds tm mod 2"
proof -
  have "epoch_seconds tm mod 2 = tm_sec tm mod 2"
    unfolding epoch_seconds_def by presburger
  then show ?thesis by (simp add: epoch_seconds_def)
qed

text \<open>
  C34. From 1980 until the 32-bit seconds end, a file time written as a FAT date and read back
  is the same time with the seconds rounded down to an even number and the fraction dropped.
\<close>

theorem dos_date_roundtrip:
  assumes codec: "dos_codec_ok E" and ft: "file_time_to_epoch_time E ft = (s, ns)"
    and range: "315532800 \<le> uint s" "uint s < 2 ^ 32"
  shows "yields (case ofc_file_time_to_dos_date_time_impl E ft of (d, t) \<Rightarrow> ofc_dos_date_time_to_file_time_impl E d t)
    (\<lambda>ft'. ft' = epoch_time_to_file_time E (s - s mod 2) 0)"
proof -
  let ?tm = "ofc_time_local_time (ucast s)" and ?w = "\<lambda>i. word_of_int i :: 16 word"
  let ?tm' = "?tm\<lparr>tm_sec := tm_sec ?tm - tm_sec ?tm mod 2\<rparr>"
  have tm': "?tm' = \<lparr>tm_sec = tm_sec ?tm - tm_sec ?tm mod 2, tm_min = tm_min ?tm, tm_hour = tm_hour ?tm,
      tm_mday = tm_mday ?tm, tm_mon = tm_mon ?tm, tm_year = tm_year ?tm\<rparr>"
    by (rule tm.equality) simp_all
  have s: "uint (ucast s :: 32 word) = uint s"
    using range(2) by (simp add: unsigned_ucast_eq take_bit_int_eq_self)
  have v: "valid_tm ?tm" and e: "epoch_seconds ?tm = uint s"
    using local_time_calendar [of "ucast s"] s by simp_all
  have year: "1980 \<le> tm_year ?tm + 1900" "tm_year ?tm + 1900 < 2108"
    using year_of_seconds [OF v] range e by simp_all
  have mday: "tm_mday ?tm \<le> 31"
    using v by (auto simp: valid_tm_def month_length_def split: if_splits)
  have u: "uint (?w i) = i" if "0 \<le> i" "i < 65536" for i
    using that by (simp add: uint_word_of_int)
  have w: "?w i < ?w j \<longleftrightarrow> i < j" "?w i \<le> ?w j \<longleftrightarrow> i \<le> j" if "0 \<le> i" "i < 65536" "0 \<le> j" "j < 65536" for i j
    using that by (simp_all add: word_less_def word_le_def u)
  have "dos_date_time_to_elements E (ofc_file_time_to_dos_date_time_impl E ft) =
      (?w (tm_mon ?tm + 1), ?w (tm_mday ?tm), ?w (tm_year ?tm + 1900), ?w (tm_hour ?tm), ?w (tm_min ?tm),
       ?w (tm_sec ?tm) - ?w (tm_sec ?tm) mod 2)"
    using codec v year mday w [of "tm_mon ?tm + 1" 16] w [of "tm_mday ?tm" 32] w [of 1980 "tm_year ?tm + 1900"]
      w [of "tm_year ?tm + 1900" 2108] w [of "tm_hour ?tm" 32] w [of "tm_min ?tm" 64] w [of "tm_sec ?tm" 64]
    by (simp add: ofc_file_time_to_dos_date_time_impl_def ft dos_codec_ok_def valid_tm_def Let_def)
  moreover have "uint (?w (tm_sec ?tm) - ?w (tm_sec ?tm) mod 2) = tm_sec ?tm - tm_sec ?tm mod 2"
  proof -
    have sec: "uint (?w (tm_sec ?tm)) = tm_sec ?tm" using v by (intro u) (auto simp: valid_tm_def)
    then have "uint (?w (tm_sec ?tm) mod 2) = tm_sec ?tm mod 2" by (simp add: uint_mod)
    then show ?thesis using sec v zmod_le_nonneg_dividend [of "tm_sec ?tm" 2]
      by (simp add: uint_sub_if' valid_tm_def)
  qed
  ultimately have "ofc_dos_date_time_to_file_time_impl E (fst (ofc_file_time_to_dos_date_time_impl E ft))
      (snd (ofc_file_time_to_dos_date_time_impl E ft)) =
    do { tv \<leftarrow> ofc_time_make_time ?tm'; Some (epoch_time_to_file_time E (ucast tv) 0) }"
    using v year mday
    by (simp only: ofc_dos_date_time_to_file_time_impl_def prod.collapse prod.case) (simp add: u valid_tm_def tm' del: of_int_add)
  moreover have "ofc_time_make_time ?tm' = Some (word_of_int (uint s - uint s mod 2))"
  proof -
    have "valid_tm ?tm'" using v by (auto simp: valid_tm_def) presburger+
    from make_time_epoch [OF this] show ?thesis by (simp add: epoch_seconds_even e)
  qed
  moreover have "ucast (word_of_int (uint s - uint s mod 2) :: 32 word) = s - s mod 2"
  proof (rule word_uint_eqI)
    have h: "0 \<le> uint s - uint s mod 2" using zmod_le_nonneg_dividend [of "uint s" 2] by simp
    have h': "uint s - uint s mod 2 < 2 ^ 32" using range(2) pos_mod_sign [of 2 "uint s"] by linarith
    with h have "uint (word_of_int (uint s - uint s mod 2) :: 32 word) = uint s - uint s mod 2"
      by (simp add: uint_word_of_int del: of_int_diff)
    moreover have "uint (s - s mod 2) = uint s - uint s mod 2"
      using zmod_le_nonneg_dividend [of "uint s" 2] by (simp add: uint_sub_if' uint_mod)
    ultimately show "uint (ucast (word_of_int (uint s - uint s mod 2) :: 32 word) :: 64 word) = uint (s - s mod 2)"
      using take_bit_int_eq_self [OF h, of 64] h' by (simp add: unsigned_ucast_eq del: of_int_diff)
  qed
  ultimately show ?thesis by (simp add: case_prod_beta wp)
qed

text \<open>A FAT date whose month field is not a month; the date word 0, which means no date, is one.\<close>

theorem dos_bad_month:
  assumes "dos_date_time_to_elements E (d, t) = (mon, rest)" and "mon = 0 \<or> 12 < mon"
  shows "ofc_dos_date_time_to_file_time_impl E d t = None"
proof -
  have "days_before (uint mon - 1) = None"
    using assms(2) by (auto simp: days_before_def word_less_def)
  then show ?thesis
    by (cases rest) (simp add: ofc_dos_date_time_to_file_time_impl_def assms(1) ofc_time_make_time_def Let_def)
qed

theorem timezone_minutes:
  assumes "\<And>hist ts. respond E hist (Clock (SysLocaltime ts)) = gm" and "r_addr gm \<noteq> OFC_NULL"
    and "r_ret gm = 60 * minutes" and "\<bar>minutes\<bar> < 2 ^ 15"
  shows "yields (ofc_time_get_timezone_impl E w) (\<lambda>(tz, w'). sint tz = minutes \<and> same_mem w w' \<and>
    (minutes < 0 \<longrightarrow> uint tz = 2 ^ 16 + minutes))"
proof -
  have sd: "60 * minutes sdiv 60 = minutes"
    by (simp add: signed_divide_int_def sgn_mult abs_mult) (metis sgn_mult_abs)
  have "sint (word_of_int minutes :: 16 word) = minutes"
    using assms(4) by (simp add: sint_sbintrunc' signed_take_bit_int_eq_self_iff) linarith
  moreover have "uint (word_of_int minutes :: 16 word) = 2 ^ 16 + minutes" if "minutes < 0"
    using that assms(4) mod_pos_pos_trivial [of "minutes + 2 ^ 16" "2 ^ 16"] by (simp add: uint_word_of_int)
  ultimately show ?thesis
    using assms(2)
    by (auto simp: ofc_time_get_timezone_impl_def call_known(1) [OF assms(1)] assms(3) sd wp split: call_splits)
qed

section \<open>Instances\<close>

theorem make_time_inverse_witness:
  "ofc_time_make_time \<lparr>tm_sec = 59, tm_min = 59, tm_hour = 23, tm_mday = 29, tm_mon = 1, tm_year = 100\<rparr> =
     Some 951868799"
proof -
  let ?tm = "\<lparr>tm_sec = 59, tm_min = 59, tm_hour = 23, tm_mday = 29, tm_mon = 1, tm_year = 100\<rparr>"
  have "valid_tm ?tm" "epoch_seconds ?tm = 951868799"
    by (simp_all add: valid_tm_def month_length_def leap_year_def epoch_seconds_def year_start_def day_of_year_def
        numeral_2_eq_2)
  with make_time_inverse [of ?tm] show ?thesis
    by (auto elim!: yieldsE simp: word_uint_eq_iff)
qed

text \<open>The reference packing keeps the fields: its words are sums without overflow.\<close>

lemma fields_of_nat:
  assumes "n < 65536"
  shows "take_bit k (drop_bit j (of_nat n :: 16 word)) = of_nat (n div 2 ^ j mod 2 ^ k)"
    and "drop_bit j (of_nat n :: 16 word) = of_nat (n div 2 ^ j)"
proof -
  have n: "unat (of_nat n :: 16 word) = n" using assms by (simp add: unat_of_nat)
  have small: "m < 65536 \<Longrightarrow> unat (of_nat m :: 16 word) = m" for m by (simp add: unat_of_nat)
  have "n div 2 ^ j < 65536" using assms div_le_dividend [of n "2 ^ j"] by linarith
  moreover have "n div 2 ^ j mod 2 ^ k < 65536"
    using calculation mod_less_eq_dividend [of "n div 2 ^ j" "2 ^ k"] by linarith
  moreover have "unat (drop_bit j (of_nat n :: 16 word)) = n div 2 ^ j"
    unfolding unat_drop_bit_eq n by (rule drop_bit_eq_div)
  moreover from this have "unat (take_bit k (drop_bit j (of_nat n :: 16 word))) = n div 2 ^ j mod 2 ^ k"
    unfolding unsigned_take_bit_eq by (simp only: take_bit_eq_mod)
  ultimately show "take_bit k (drop_bit j (of_nat n :: 16 word)) = of_nat (n div 2 ^ j mod 2 ^ k)"
    "drop_bit j (of_nat n :: 16 word) = of_nat (n div 2 ^ j)"
    by (simp_all only: word_unat_eq_iff small)
qed

lemma fields_split:
  fixes a b c B C :: nat
  assumes "b < B" "c < C"
  shows "(a * (B * C) + b * C + c) div C = a * B + b" "(a * (B * C) + b * C + c) div (B * C) = a" "(a * B + b) mod B = b"
    "(a * (B * C) + b * C + c) mod C = c"
proof -
  have e: "a * (B * C) + b * C + c = (a * B + b) * C + c" by (simp add: algebra_simps)
  show 1: "(a * (B * C) + b * C + c) div C = a * B + b" unfolding e using assms by simp
  show "(a * (B * C) + b * C + c) div (B * C) = a"
    using 1 assms by (simp add: mult.commute [of B] div_mult2_eq)
  show "(a * B + b) mod B = b" "(a * (B * C) + b * C + c) mod C = c"
    unfolding e using assms by simp_all
qed

lemma dos_unpack_pack:
  assumes "m < 16" "d < 32" "y < 128" "h < 32" "i < 64" "s < 64"
  shows "dos_unpack (dos_pack (of_nat m, of_nat d, of_nat (1980 + y), of_nat h, of_nat i, of_nat s)) =
    (of_nat m, of_nat d, of_nat (1980 + y), of_nat h, of_nat i, of_nat s - of_nat s mod 2)"
proof -
  let ?D = "y * 512 + m * 32 + d" and ?T = "h * 2048 + i * 32 + s div 2"
  have lt: "?D < 65536" "?T < 65536" "s < 65536" using assms by auto
  have s2: "s div 2 < 32" using assms(6) by simp
  have half: "drop_bit 1 (of_nat s :: 16 word) = of_nat (s div 2)"
    using fields_of_nat(2) [OF lt(3), where j = 1] unfolding power_one_right .
  have pack: "dos_pack (of_nat m, of_nat d, of_nat (1980 + y), of_nat h, of_nat i, of_nat s) = (of_nat ?D, of_nat ?T)"
    by (simp add: half [unfolded One_nat_def])
  have D: "?D div 32 mod 16 = m" "?D mod 32 = d" "?D div 512 = y"
    using fields_split [OF assms(1,2), of y] by simp_all
  have T: "?T div 32 mod 64 = i" "?T mod 32 = s div 2" "?T div 2048 = h"
    using fields_split [OF assms(5) s2, of h] by simp_all
  have even: "of_nat (s div 2) * 2 = of_nat s - (of_nat s mod 2 :: 16 word)"
  proof -
    have "s = 2 * (s div 2) + s mod 2" by simp
    then have "(of_nat s :: 16 word) = 2 * of_nat (s div 2) + of_nat (s mod 2)"
      by (metis of_nat_add of_nat_mult of_nat_numeral)
    moreover have "(of_nat s :: 16 word) mod 2 = of_nat (s mod 2)"
      using take_bit_of_nat [of 1 s, where ?'a = "16 word"] by (simp add: take_bit_eq_mod)
    ultimately show ?thesis by (simp add: mult.commute)
  qed
  show ?thesis
    unfolding pack dos_unpack.simps
    using fields_of_nat(1) [OF lt(1), of 4 5] fields_of_nat(1) [OF lt(1), of 5 0] fields_of_nat(2) [OF lt(1), of 9]
      fields_of_nat(2) [OF lt(2), of 11] fields_of_nat(1) [OF lt(2), of 6 5] fields_of_nat(1) [OF lt(2), of 5 0]
    by (simp add: D T even push_bit_eq_mult del: of_nat_add of_nat_mult) (simp add: add.commute)
qed

lemma dos_codec_ref: "dos_codec_ok (ref_env f)"
proof -
  have "dos_unpack (dos_pack (mon, day, year, hour, mins, sec)) = (mon, day, year, hour, mins, sec - sec mod 2)"
    if "mon < 16" "day < 32" "1980 \<le> year" "year < 2108" "hour < 32" "mins < 64" "sec < 64"
    for mon day year hour mins sec :: "16 word"
  proof -
    have lt: "unat mon < 16" "unat day < 32" "unat year - 1980 < 128" "unat hour < 32" "unat mins < 64" "unat sec < 64"
      and year: "1980 + (unat year - 1980) = unat year"
      using that by (auto simp: word_less_nat_alt word_le_nat_alt)
    show ?thesis using dos_unpack_pack [OF lt] unfolding year by (simp del: dos_pack.simps dos_unpack.simps)
  qed
  then show ?thesis by (simp add: dos_codec_ok_def ref_env_def del: dos_pack.simps dos_unpack.simps)
qed

text \<open>An environment whose file times are seconds, 5,400 seconds west of GMT.\<close>

definition clock_env :: env where
  "clock_env = ref_env (\<lambda>hist c. case c of
     Clock SysTime \<Rightarrow> no_resp\<lparr>r_ret := 1000000000\<rparr>
   | Clock (SysLocaltime ts) \<Rightarrow> no_resp\<lparr>r_addr := 64, r_ret := -5400\<rparr>
   | _ \<Rightarrow> no_resp)"

lemma clock_env_codec: "file_time_to_epoch_time clock_env ft = (ft, 0)" "epoch_time_to_file_time clock_env s n = s"
  by (simp_all add: clock_env_def ref_env_def)

theorem dos_date_roundtrip_witness:
  "yields (case ofc_file_time_to_dos_date_time_impl clock_env 1000000001 of (d, t) \<Rightarrow>
     ofc_dos_date_time_to_file_time_impl clock_env d t) (\<lambda>ft'. ft' = 1000000000)"
  using dos_date_roundtrip [OF dos_codec_ref clock_env_codec(1) [of 1000000001, unfolded clock_env_def]]
  by (simp add: clock_env_codec(2) flip: clock_env_def)

theorem dos_bad_month_witness: "ofc_dos_date_time_to_file_time_impl clock_env 0 0 = None"
  by (rule dos_bad_month [where mon = 0 and rest = "(0, 1980, 0, 0, 0)"])
     (simp_all add: clock_env_def ref_env_def)

theorem timezone_minutes_witness:
  "yields (ofc_time_get_timezone_impl clock_env empty_world) (\<lambda>(tz, w'). sint tz = -90)"
proof -
  have "respond clock_env hist (Clock (SysLocaltime ts)) = no_resp\<lparr>r_addr := 64, r_ret := -5400\<rparr>" for hist ts
    by (simp add: clock_env_def)
  from timezone_minutes [OF this, of "-90" empty_world] show ?thesis
    by (auto simp: yields_def no_resp_def)
qed

end
