(* ===== verification/OFC_Console.thy ===== *)
theory OFC_Console
  imports OFC_Reference
begin

text \<open>
  The log and the console (src/src/console\_android.c), with \<open>LOG_TO_FILE\<close> set. The log's
  descriptor \<open>g_fd\<close> is the standard output until a file is open; opening the file writes a first
  line to it, through the same function that opens the file when it is not open. That recursion
  ends only when the file does open, so \<open>None\<close> stands here for a stack that overflows as well.
  The lemmas show what reaches the file, and that it is never exchanged for another one.
\<close>

section \<open>Operations\<close>

fun decimal :: "nat \<Rightarrow> byte list" where
  "decimal n = (if n < 10 then [of_nat (48 + n)] else decimal (n div 10) @ [of_nat (48 + n mod 10)])"

text \<open>\<open>LOG_FILE\<close> with the configuration directory and the index, cut to the buffer's 128 bytes.\<close>

definition log_path :: "byte list \<Rightarrow> int \<Rightarrow> byte list" where
  "log_path dir ix = take 127 (dir @ bytes ''/connectedsmb.log.'' @
     (if ix < 0 then bytes ''-'' else []) @ decimal (nat \<bar>ix\<bar>))"

text \<open>
  \<open>open_log\<close>, with the body of \<open>ofc_write_console_impl\<close> in the place of its call; the equation
  below puts the call back.
\<close>

partial_function (option) open_log :: "env \<Rightarrow> world \<Rightarrow> world option" where
  "open_log E w =
     (let (r, w) = call E (Core GetConfigDir) w in
      if r_ret r = 1 then do {
        let w = (if g_fd w \<noteq> STDOUT_FILENO then call_void E (Sys (SysClose (g_fd w))) w else w);
        let (d, w) = call_ret E (File (SysOpen (log_path (r_buf r) (log_ix w)))) w;
        let w = w\<lparr>g_fd := (if d < 0 then STDOUT_FILENO else d)\<rparr>;
        w \<leftarrow> (if g_fd w = STDOUT_FILENO then open_log E w else Some w);
        let w = call_void E (File (SysWriteBytes (g_fd w) (version_line E))) w;
        let w = call_void E (File (SysFsync (g_fd w))) w;
        core_process_dump_libs E w
      } else Some w)"

definition ofc_write_console_impl :: "env \<Rightarrow> byte list \<Rightarrow> world \<Rightarrow> world option" where
  "ofc_write_console_impl E obuf w = do {
     w \<leftarrow> (if g_fd w = STDOUT_FILENO then open_log E w else Some w);
     let w = call_void E (File (SysWriteBytes (g_fd w) obuf)) w;
     Some (call_void E (File (SysFsync (g_fd w))) w)
   }"

lemma open_log_calls_console:
  "open_log E w =
     (let (r, w) = call E (Core GetConfigDir) w in
      if r_ret r = 1 then do {
        let w = (if g_fd w \<noteq> STDOUT_FILENO then call_void E (Sys (SysClose (g_fd w))) w else w);
        let (d, w) = call_ret E (File (SysOpen (log_path (r_buf r) (log_ix w)))) w;
        let w = w\<lparr>g_fd := (if d < 0 then STDOUT_FILENO else d)\<rparr>;
        w \<leftarrow> ofc_write_console_impl E (version_line E) w;
        core_process_dump_libs E w
      } else Some w)"
  by (subst open_log.simps) (simp add: ofc_write_console_impl_def Let_def cong: if_cong)

text \<open>The caller's buffer is at least \<open>len\<close> bytes long, or the write reads past it.\<close>

definition ofc_write_stdout_impl :: "env \<Rightarrow> byte list \<Rightarrow> 64 word \<Rightarrow> world \<Rightarrow> world option" where
  "ofc_write_stdout_impl E obuf len w = do {
     w \<leftarrow> (if g_fd w = STDOUT_FILENO then open_log E w
           else let (r, w) = call E (File (SysFstat (g_fd w))) w in
                if r_ret r > 0 then
                  if fst (r_pair r) > 2 * 1024 * 1024 then
                    let w = call_void E (Sys (SysClose (g_fd w))) w;
                        w = w\<lparr>log_ix := (log_ix w + 1) mod 2\<rparr>
                    in open_log E w
                  else Some w
                else Some w);
     if unat len > length obuf then None
     else let w = call_void E (File (SysWriteBytes (g_fd w) (take (unat len) obuf))) w
          in Some (call_void E (File (SysFsync (g_fd w))) w)
   }"

definition ofc_write_log_impl :: "env \<Rightarrow> int \<Rightarrow> byte list \<Rightarrow> 64 word \<Rightarrow> world \<Rightarrow> world option" where
  "ofc_write_log_impl E level obuf len w = ofc_write_stdout_impl E obuf len w"

text \<open>
  \<open>fgets\<close> stores a string and its terminator, or nothing at the end of the input. The length of
  a buffer without a terminator is undefined, and so is a write outside the buffer.
\<close>

definition c_strlen :: "byte list \<Rightarrow> nat option" where
  "c_strlen bs = (if 0 \<in> set bs then Some (length (takeWhile (\<lambda>b. b \<noteq> 0) bs)) else None)"

definition ofc_read_stdin_impl :: "env \<Rightarrow> byte list \<Rightarrow> 64 word \<Rightarrow> world \<Rightarrow> (byte list) result" where
  "ofc_read_stdin_impl E inbuf len w = do {
     let (r, w) = call E (File (SysFgets len)) w;
     let inbuf = (if r_addr r \<noteq> OFC_NULL then poke 0 (r_buf r @ [0]) inbuf else inbuf);
     n \<leftarrow> c_strlen inbuf;
     let len = (if of_nat n < len then of_nat n else len);
     if unat (len - 1) < length inbuf then Some (inbuf[unat (len - 1) := 0], w) else None
   }"

definition ofc_read_password_impl :: "env \<Rightarrow> byte list \<Rightarrow> 64 word \<Rightarrow> world \<Rightarrow> (byte list) result" where
  "ofc_read_password_impl E inbuf len w =
     (let w = call_void E (Core (Log ''Attempt to Read Password on Android.  Need Method'')) w
      in if inbuf = [] then None else Some (inbuf[0 := 0], w))"

section \<open>What reaches a file\<close>

fun contents :: "history \<Rightarrow> int \<Rightarrow> byte list" where
  "contents [] d = []"
| "contents ((File (SysWriteBytes e bs), r) # cs) d = (if e = d then contents cs d @ bs else contents cs d)"
| "contents (_ # cs) d = contents cs d"

definition opens :: "history \<Rightarrow> nat" where
  "opens cs = length (filter (\<lambda>(c, r). case c of File (SysOpen p) \<Rightarrow> True | Sys (SysClose d) \<Rightarrow> True | _ \<Rightarrow> False) cs)"

text \<open>\<open>fstat\<close> returns 0 or -1.\<close>

definition fstat_ok :: "env \<Rightarrow> bool" where
  "fstat_ok E \<longleftrightarrow> (\<forall>hist d. r_ret (respond E hist (File (SysFstat d))) \<le> 0)"

text \<open>A message: one written with its length, or one written to the console.\<close>

datatype message = LogMessage "byte list" | ConsoleMessage "byte list"

fun text_of :: "message \<Rightarrow> byte list" where
  "text_of (LogMessage bs) = bs"
| "text_of (ConsoleMessage bs) = bs"

fun write_message :: "env \<Rightarrow> message \<Rightarrow> world \<Rightarrow> world option" where
  "write_message E (LogMessage bs) w = ofc_write_log_impl E 0 bs (of_nat (length bs)) w"
| "write_message E (ConsoleMessage bs) w = ofc_write_console_impl E bs w"

lemma write_message_appends:
  assumes "fstat_ok E" and "g_fd w = d" "d \<noteq> STDOUT_FILENO" and "length (text_of m) < 2 ^ 64"
  shows "yields (write_message E m w) (\<lambda>w'. g_fd w' = d \<and> log_ix w' = log_ix w \<and>
    contents (calls w') d = contents (calls w) d @ text_of m \<and> opens (calls w') = opens (calls w))"
proof -
  have stat: "\<not> 0 < r_ret r" if "answers E (File (SysFstat e)) v r" for e v r
    using assms(1) that unfolding fstat_ok_def answers_def by (metis not_less)
  have len: "unat (of_nat (length bs) :: 64 word) = length bs" if "m = LogMessage bs" for bs
    using assms(4) that by (simp add: unat_of_nat)
  show ?thesis
    using assms(2,3) len
    by (cases m) (auto simp: ofc_write_log_impl_def ofc_write_stdout_impl_def ofc_write_console_impl_def
        Let_def wp opens_def split: call_splits dest: stat)
qed

theorem log_only_grows:
  assumes "fstat_ok E" and "g_fd w = d" "d \<noteq> STDOUT_FILENO" and "\<forall>m\<in>set ms. length (text_of m) < 2 ^ 64"
  shows "yields (run_ops (write_message E) ms w) (\<lambda>w'. g_fd w' = d \<and> log_ix w' = log_ix w \<and>
    contents (calls w') d = contents (calls w) d @ concat (map text_of ms) \<and> opens (calls w') = opens (calls w))"
  using assms(2,4)
proof (induction ms arbitrary: w)
  case Nil
  then show ?case by (simp add: wp)
next
  case (Cons m ms)
  have "yields (write_message E m w) (\<lambda>w'. g_fd w' = d \<and> log_ix w' = log_ix w \<and>
    contents (calls w') d = contents (calls w) d @ text_of m \<and> opens (calls w') = opens (calls w))"
    using Cons.prems by (intro write_message_appends [OF assms(1) _ assms(3)]) simp_all
  then show ?case
    using Cons.prems by (auto simp: wp elim!: yields_mono intro!: yields_mono [OF Cons.IH])
qed

text \<open>The first message, when the file opens: the version line comes first.\<close>

theorem log_opens:
  assumes "g_fd w = STDOUT_FILENO" and "\<And>hist. respond E hist (Core GetConfigDir) = r" "r_ret r = 1"
    and "\<And>hist. r_ret (respond E hist (File (SysOpen (log_path (r_buf r) (log_ix w))))) = d" "0 \<le> d" "d \<noteq> STDOUT_FILENO"
    and "core_process_dump_libs E = Some"
  shows "yields (ofc_write_console_impl E msg w) (\<lambda>w'. g_fd w' = d \<and>
    contents (calls w') d = contents (calls w) d @ version_line E @ msg \<and>
    contents (calls w') STDOUT_FILENO = contents (calls w) STDOUT_FILENO)"
proof -
  have o: "r_ret x = d" if "answers E (File (SysOpen (log_path (r_buf r) (log_ix w)))) v x" for v x
    using assms(4) that by (simp add: answers_def)
  have "yields (open_log E w) (\<lambda>w'. g_fd w' = d \<and> contents (calls w') d = contents (calls w) d @ version_line E \<and>
    contents (calls w') STDOUT_FILENO = contents (calls w) STDOUT_FILENO)"
    using assms(1,3,5-7)
    by (subst open_log.simps) (auto simp: call_known(1) [OF assms(2)] Let_def wp o split: call_splits)
  then show ?thesis
    using assms(1,6)
    by (auto simp: ofc_write_console_impl_def wp Let_def elim!: yields_mono split: call_splits)
qed

text \<open>When the file cannot be opened, the recursion has no end.\<close>

definition never_opens :: "env \<Rightarrow> bool" where
  "never_opens E \<longleftrightarrow> (\<forall>hist. r_ret (respond E hist (Core GetConfigDir)) = 1 \<and>
     (\<forall>p. r_ret (respond E hist (File (SysOpen p))) < 0))"

lemma open_log_recurses:
  assumes "never_opens E" and "g_fd w = STDOUT_FILENO"
  shows "open_log E w = None"
proof -
  have False if run: "open_log E w = Some w'" for w'
  proof -
    from open_log.raw_induct [where P = "\<lambda>E w w'. \<not> (never_opens E \<and> g_fd w = STDOUT_FILENO)", OF _ run]
    have "\<not> (never_opens E \<and> g_fd w = STDOUT_FILENO)"
      by (fastforce simp: never_opens_def call_def call_ret_def Let_def bind_eq_Some_conv split: if_splits)
    with assms show False by blast
  qed
  then show ?thesis by (cases "open_log E w") auto
qed

text \<open>
  C24. When the configuration directory is known but the log file cannot be opened, writing a
  message does not return: opening the log writes its first line through the function that opens
  the log.
\<close>

theorem console_recursion:
  assumes "never_opens E" and "g_fd w = STDOUT_FILENO"
  shows "ofc_write_console_impl E msg w = None \<and> ofc_write_stdout_impl E msg len w = None"
  using assms(2) by (simp add: ofc_write_console_impl_def ofc_write_stdout_impl_def open_log_recurses [OF assms])

section \<open>Reading a line\<close>

lemma c_strlen_line: "0 \<notin> set line \<Longrightarrow> c_strlen (line @ 0 # rest) = Some (length line)"
  by (induction line) (auto simp: c_strlen_def)

text \<open>
  The last character read is cut off, newline or not; with nothing read, the write before the
  start of the buffer is undefined.
\<close>

theorem read_line:
  assumes "\<And>hist. respond E hist (File (SysFgets len)) = r" and "unat len = length inbuf"
  shows "(r_addr r \<noteq> OFC_NULL \<and> r_buf r = line @ [c] \<and> 0 \<notin> set (line @ [c]) \<and> length line + 1 < length inbuf \<longrightarrow>
      yields (ofc_read_stdin_impl E inbuf len w) (\<lambda>(buf, w').
        takeWhile (\<lambda>b. b \<noteq> 0) buf = line \<and> length buf = length inbuf)) \<and>
    (r_addr r = OFC_NULL \<and> inbuf = 0 # rest \<longrightarrow> ofc_read_stdin_impl E inbuf len w = None)"
proof -
  have small: "unat (of_nat n :: 64 word) = n" if "n \<le> length inbuf" for n
    using that assms(2) unsigned_less [of len, where ?'a = nat] by (simp add: unat_of_nat)
  { assume r: "r_addr r \<noteq> OFC_NULL" "r_buf r = line @ [c]" "0 \<notin> set (line @ [c])" "length line + 1 < length inbuf"
    let ?b = "(line @ [c]) @ 0 # drop (length line + 2) inbuf"
    have "poke 0 (r_buf r @ [0]) inbuf = ?b" using r(2) by (simp add: poke_def)
    moreover have "c_strlen ?b = Some (length line + 1)" using c_strlen_line [OF r(3)] by simp
    moreover have "of_nat (length line + 1) < len"
      using small [of "length line + 1"] r(4) assms(2) by (simp add: word_less_nat_alt)
    moreover have "unat (of_nat (length line + 1) - 1 :: 64 word) = length line"
      using small [of "length line"] r(4) by simp
    ultimately have "yields (ofc_read_stdin_impl E inbuf len w) (\<lambda>(buf, w').
        takeWhile (\<lambda>b. b \<noteq> 0) buf = line \<and> length buf = length inbuf)"
      using r by (simp add: ofc_read_stdin_impl_def call_known(1) [OF assms(1)] wp Let_def list_update_append
          takeWhile_append del: of_nat_Suc of_nat_add) auto }
  moreover have "ofc_read_stdin_impl E inbuf len w = None" if "r_addr r = OFC_NULL" "inbuf = 0 # rest"
  proof -
    have "\<not> unat (- 1 :: 64 word) < length inbuf"
      using word_n1_ge [of len] by (simp add: word_le_nat_alt flip: assms(2))
    moreover have "0 < len" using that(2) assms(2) by (auto simp: word_less_nat_alt)
    ultimately show ?thesis
      using that by (simp add: ofc_read_stdin_impl_def call_known(1) [OF assms(1)] c_strlen_def Let_def)
  qed
  ultimately show ?thesis by (intro conjI impI; (elim conjE)?) assumption+
qed

section \<open>Instances\<close>

text \<open>A log that opens as descriptor 5, and one that never opens.\<close>

definition log_env :: "int \<Rightarrow> env" where
  "log_env d = ref_env (\<lambda>hist c. case c of
     Core GetConfigDir \<Rightarrow> no_resp\<lparr>r_ret := 1, r_buf := bytes ''/data''\<rparr>
   | File (SysOpen p) \<Rightarrow> no_resp\<lparr>r_ret := d\<rparr>
   | File (SysFgets n) \<Rightarrow> no_resp\<lparr>r_addr := 64, r_buf := bytes ''yes'' @ [10]\<rparr>
   | _ \<Rightarrow> no_resp)"

theorem log_only_grows_witness:
  "yields (run_ops (write_message (log_env 5)) [LogMessage (bytes ''a''), ConsoleMessage (bytes ''b'')]
     (empty_world\<lparr>g_fd := 5\<rparr>)) (\<lambda>w'. contents (calls w') 5 = bytes ''ab'' \<and> opens (calls w') = 0)"
proof -
  have "fstat_ok (log_env 5)" by (simp add: fstat_ok_def log_env_def no_resp_def)
  then show ?thesis
    by (rule yields_mono [OF log_only_grows]) (auto simp: bytes_def opens_def)
qed

theorem log_opens_witness:
  "yields (ofc_write_console_impl (log_env 5) (bytes ''x'') empty_world) (\<lambda>w'. g_fd w' = 5 \<and>
     contents (calls w') 5 = bytes ''OpenFilesx'')"
proof -
  have r: "respond (log_env 5) hist (Core GetConfigDir) = no_resp\<lparr>r_ret := 1, r_buf := bytes ''/data''\<rparr>" for hist
    by (simp add: log_env_def)
  show ?thesis
    by (rule yields_mono [OF log_opens [OF _ r]])
       (auto simp: log_env_def ref_env_def no_resp_def bytes_def)
qed

theorem console_recursion_witness: "ofc_write_console_impl (log_env (-1)) (bytes ''x'') empty_world = None"
proof -
  have "never_opens (log_env (-1))" by (simp add: never_opens_def log_env_def no_resp_def)
  then show ?thesis using console_recursion by simp
qed

theorem read_line_witness:
  "yields (ofc_read_stdin_impl (log_env 5) (replicate 8 0) 8 empty_world)
     (\<lambda>(buf, w'). takeWhile (\<lambda>b. b \<noteq> 0) buf = bytes ''yes'')"
proof -
  have r: "respond (log_env 5) hist (File (SysFgets 8)) = no_resp\<lparr>r_addr := 64, r_buf := bytes ''yes'' @ [10]\<rparr>" for hist
    by (simp add: log_env_def)
  have "yields (ofc_read_stdin_impl (log_env 5) (replicate 8 0) 8 empty_world)
     (\<lambda>(buf, w'). takeWhile (\<lambda>b. b \<noteq> 0) buf = bytes ''yes'' \<and> length buf = length (replicate 8 (0::byte)))"
    using read_line [OF r, of "replicate 8 0" "bytes ''yes''" 10] by (simp add: no_resp_def bytes_def)
  then show ?thesis by (rule yields_mono) auto
qed

end
