(* ===== verification/OFC_Process.thy ===== *)
theory OFC_Process
  imports OFC_Console
begin

text \<open>
  Processes (src/src/process\_android.c): starting a daemon by two forks, ending processes, the
  crash path through the console, and the load addresses that stack traces are relative to.

  A process that exits or is replaced does not return from the function that did it: \<open>Ended\<close>.
  After \<open>vfork\<close> the child runs first, in the memory of its parent, until it exits; then the
  parent goes on. After \<open>fork\<close> an answer of 0 means that the history is that of the grandchild.
  The status \<open>waitpid\<close> stores is part of its answer. \<open>ofc_process_crash\<close> is the core's name for
  \<open>ofc_process_crash_impl\<close>, \<open>ofc_process_dump_libs\<close> that for \<open>ofc_process_dump_libs_impl\<close>.
\<close>

section \<open>Operations\<close>

datatype 'a flow = Returned 'a | Ended

definition ofc_process_get_impl :: "env \<Rightarrow> world \<Rightarrow> int \<times> world" where
  "ofc_process_get_impl E w = call_ret E (Proc SysGetpid) w"

definition ofc_process_block_signal :: "env \<Rightarrow> int \<Rightarrow> world \<Rightarrow> world" where
  "ofc_process_block_signal E sig w = call_void E (Proc (SysBlockSignal sig)) w"

definition ofc_process_unblock_signal :: "env \<Rightarrow> int \<Rightarrow> world \<Rightarrow> world" where
  "ofc_process_unblock_signal E sig w = call_void E (Proc (SysUnblockSignal sig)) w"

definition ofc_process_signal :: "env \<Rightarrow> int \<Rightarrow> int \<Rightarrow> int \<Rightarrow> world \<Rightarrow> world" where
  "ofc_process_signal E process sig val w =
     call_void E (Core (Log ''ofc_process_signal called but not supported'')) w"

definition ofc_process_term_trap_impl :: "env \<Rightarrow> ptr \<Rightarrow> world \<Rightarrow> bool \<times> world" where
  "ofc_process_term_trap_impl E trap w =
     (let (n, w) = call_ret E (Proc (SysSigaction SIGTERM trap)) w in (n = 0, w))"

definition ofc_process_crash_impl :: "env \<Rightarrow> byte list \<Rightarrow> world \<Rightarrow> world option" where
  "ofc_process_crash_impl E obuf w = do {
     w \<leftarrow> ofc_write_console_impl E obuf w;
     Some (call_void E (Proc (SysExit 0)) w)
   }"

text \<open>The grandchild: it becomes the user, if there is one, and then the program.\<close>

definition run_daemon :: "env \<Rightarrow> ptr \<Rightarrow> ptr list \<Rightarrow> ptr \<Rightarrow> world \<Rightarrow> world option" where
  "run_daemon E cname exec_argv cuname w = do {
     let w = (if cuname \<noteq> OFC_NULL then
                let (user, w) = call E (Proc (SysGetpwnam cuname)) w in
                if r_addr user \<noteq> OFC_NULL then
                  let w = call_void E (Proc (SysSetgid (fst (r_pair user)))) w
                  in call_void E (Proc (SysSetuid (snd (r_pair user)))) w
                else w
              else w);
     let (ret3, w) = call_ret E (Proc (SysExecve cname exec_argv)) w;
     if ret3 < 0 then ofc_process_crash_impl E (bytes ''Unable to Exec the Daemon'' @ [10]) w else Some w
   }"

text \<open>The first child: it leaves the grandchild's process id in the memory it shares.\<close>

definition run_first_child :: "env \<Rightarrow> ptr \<Rightarrow> ptr list \<Rightarrow> ptr \<Rightarrow> world \<Rightarrow> (int flow) result" where
  "run_first_child E cname exec_argv cuname w = do {
     let (pidt, w) = call_ret E (Proc SysFork) w;
     if pidt < 0 then do {
       w \<leftarrow> ofc_process_crash_impl E (bytes ''Unable to Fork Second Process'' @ [10]) w;
       Some (Returned 0, w)
     } else if pidt = 0 then do {
       w \<leftarrow> run_daemon E cname exec_argv cuname w;
       Some (Ended, w)
     } else Some (Returned pidt, call_void E (Proc (SysExit 0)) w)
   }"

definition ofc_process_exec_impl ::
  "env \<Rightarrow> ptr \<Rightarrow> ptr \<Rightarrow> int \<Rightarrow> ptr list \<Rightarrow> world \<Rightarrow> (handle flow) result" where
  "ofc_process_exec_impl E name uname argc argv w = do {
     let (cname, w) = call_addr E (Core (Tstr2cstr name)) w;
     let (cuname, w) = call_addr E (Core (Tstr2cstr uname)) w;
     let (exec_argv, w) = call_addr E (Pkg Malloc) w;
     if exec_argv = OFC_NULL \<or> argc < 0 \<or> nat argc > length argv then None
     else do {
       let args = take (nat argc) argv @ [OFC_NULL];
       let (pid, w) = call_ret E (Proc SysVfork) w;
       if pid < 0 then do {
         w \<leftarrow> ofc_process_crash_impl E (bytes ''Unable to Fork First Process'' @ [10]) w;
         Some (Ended, w)
       } else do {
         (child, w) \<leftarrow> run_first_child E cname args cuname w;
         (case child of
            Ended \<Rightarrow> Some (Ended, w)
          | Returned pid2 \<Rightarrow>
              let (r, w) = call E (Proc (SysWaitpid pid)) w;
                  (ret, w) = (if r_ret r < 0 then call_ret E (Sys Indeterminate) w else (fst (r_pair r), w));
                  (hProcess, w) =
                    (if ret = 0 then call_addr E (Pkg (HandleCreate OFC_HANDLE_PROCESS (word_of_int pid2))) w
                     else (OFC_INVALID_HANDLE_VALUE E, w));
                  w = call_void E (Pkg (Free cuname)) w;
                  w = call_void E (Pkg (Free cname)) w;
                  w = call_void E (Pkg (Free exec_argv)) w
              in Some (Returned hProcess, w))
       }
     }
   }"

text \<open>The handle's pointer is the process id; it is cut to the 32 bits of a \<open>pid_t\<close>.\<close>

definition pid_of :: "64 word \<Rightarrow> int" where
  "pid_of p = sint (ucast p :: 32 word)"

definition ofc_process_get_id_impl :: "env \<Rightarrow> handle \<Rightarrow> world \<Rightarrow> int \<times> world" where
  "ofc_process_get_id_impl E hProcess w =
     (let (p, w) = ofc_handle_lock E hProcess w; pid = pid_of p
      in (pid, if pid \<noteq> 0 then ofc_handle_unlock E hProcess w else w))"

definition ofc_process_term_impl :: "env \<Rightarrow> handle \<Rightarrow> world \<Rightarrow> world" where
  "ofc_process_term_impl E hProcess w =
     (let (p, w) = ofc_handle_lock E hProcess w;
          w = call_void E (Proc (SysKill (pid_of p) SIGTERM)) w;
          w = call_void E (Pkg (HandleDestroy hProcess)) w
      in ofc_handle_unlock E hProcess w)"

definition ofc_process_kill_impl :: "env \<Rightarrow> int \<Rightarrow> world \<Rightarrow> world" where
  "ofc_process_kill_impl E pid w = call_void E (Proc (SysKill pid SIGTERM)) w"

text \<open>The callback sees each loaded library: its name and the address it is loaded at.\<close>

definition process_dump_libs_callback :: "env \<Rightarrow> byte list \<times> 64 word \<Rightarrow> world \<Rightarrow> world option" where
  "process_dump_libs_callback E info w =
     (case info of (name, addr) \<Rightarrow>
        if ofc_substr E ''libof_core_jni'' name \<ge> 0 then
          let w = w\<lparr>core_load_addr := addr\<rparr>
          in ofc_write_console_impl E (library_line E ''libof_core_jni'' (core_load_addr w)) w
        else if ofc_substr E ''libof_smb_jni'' name \<ge> 0 then
          let w = w\<lparr>smb_load_addr := addr\<rparr>
          in ofc_write_console_impl E (library_line E ''libof_smb_jni'' (smb_load_addr w)) w
        else Some w)"

definition ofc_process_dump_libs_impl :: "env \<Rightarrow> world \<Rightarrow> world option" where
  "ofc_process_dump_libs_impl E w =
     (let (r, w) = call E (Proc SysDlIterate) w
      in run_ops (process_dump_libs_callback E) (zip (r_hosts r) (r_items r)) w)"

abbreviation (input) top_bit :: "64 word" where "top_bit \<equiv> 0x8000000000000000"

definition relative_addr :: "64 word \<Rightarrow> 64 word \<Rightarrow> 64 word \<Rightarrow> 64 word" where
  "relative_addr core smb addr =
     (if core = 0 \<or> smb = 0 then 0
      else if core > smb then
        if addr > core then addr - core
        else if addr > smb then (addr - smb) OR top_bit
        else 0
      else if smb > core then
        if addr > smb then (addr - smb) OR top_bit
        else if addr > core then addr - core
        else 0
      else 0)"

definition ofc_process_relative_addr_impl :: "ptr \<Rightarrow> world \<Rightarrow> ptr" where
  "ofc_process_relative_addr_impl addr w = relative_addr (core_load_addr w) (smb_load_addr w) addr"

section \<open>Starting a daemon\<close>

text \<open>
  \<open>waitpid\<close> reports the code the child exited with, in the second byte of the status; the child
  is the last process that exited.
\<close>

fun exit_code :: "history \<Rightarrow> int" where
  "exit_code [] = 0"
| "exit_code ((Proc (SysExit c), r) # cs) = c"
| "exit_code (_ # cs) = exit_code cs"

definition wait_status_ok :: "env \<Rightarrow> bool" where
  "wait_status_ok E \<longleftrightarrow> (\<forall>hist pid. r_ret (respond E hist (Proc (SysWaitpid pid))) \<ge> 0 \<and>
     fst (r_pair (respond E hist (Proc (SysWaitpid pid)))) = 256 * (exit_code hist mod 256))"

lemma wait_statusD:
  assumes "wait_status_ok E" and "answers E (Proc (SysWaitpid pid)) v r"
  shows "\<not> r_ret r < 0" "fst (r_pair r) = 256 * (exit_code (calls v) mod 256)"
  using assms by (auto simp: wait_status_ok_def answers_def not_less)

text \<open>
  C20. When both forks succeed, starting a daemon waits for the first child and returns a handle
  made for the process id of the second, the one the first child stored in the memory it shares
  with its parent. The two converted strings and the argument vector are freed, and no structure
  changes.
\<close>

theorem exec_starts:
  assumes status: "wait_status_ok E"
    and argv: "\<And>hist. r_addr (respond E hist (Pkg Malloc)) = a" "a \<noteq> OFC_NULL" "argc = int (length argv)"
    and strs: "\<And>hist. r_addr (respond E hist (Core (Tstr2cstr name))) = cname"
      "\<And>hist. r_addr (respond E hist (Core (Tstr2cstr uname))) = cuname"
    and forks: "\<And>hist. r_ret (respond E hist (Proc SysVfork)) = pid" "0 < pid"
      "\<And>hist. r_ret (respond E hist (Proc SysFork)) = pid2" "0 < pid2"
    and hc: "\<And>hist. r_addr (respond E hist (Pkg (HandleCreate OFC_HANDLE_PROCESS (word_of_int pid2)))) = h"
  shows "yields (ofc_process_exec_impl E name uname argc argv w) (\<lambda>(f, w'). f = Returned h \<and>
    Proc (SysWaitpid pid) \<in> fst ` set (calls w') \<and>
    Pkg (HandleCreate OFC_HANDLE_PROCESS (word_of_int pid2)) \<in> fst ` set (calls w') \<and>
    map fst (take 3 (calls w')) = [Pkg (Free a), Pkg (Free cname), Pkg (Free cuname)] \<and> same_mem w w')"
proof -
  note D = argv(1) strs forks(1,3) hc
  show ?thesis
    using argv(2,3) forks(2,4) wait_statusD [OF status]
    by (auto simp: ofc_process_exec_impl_def run_first_child_def Let_def wp D answers_def split: call_splits)
qed

text \<open>
  C21. When the second fork fails, the first child exits with code 0 all the same, so starting a
  daemon returns a handle, for the process id 0. Ending that process sends the termination
  signal to the caller's own process group.
\<close>

theorem exec_fork_fails:
  assumes status: "wait_status_ok E"
    and argv: "\<And>hist. r_addr (respond E hist (Pkg Malloc)) \<noteq> OFC_NULL" "argc = int (length argv)"
    and forks: "\<And>hist. 0 < r_ret (respond E hist (Proc SysVfork))" "\<And>hist. r_ret (respond E hist (Proc SysFork)) < 0"
    and hc: "\<And>hist. r_addr (respond E hist (Pkg (HandleCreate OFC_HANDLE_PROCESS 0))) = h"
    and lock: "\<And>hist. r_addr (respond E hist (Pkg (HandleLock h))) = 0" and log: "g_fd w \<noteq> STDOUT_FILENO"
  shows "yields (do {
      (f, w) \<leftarrow> ofc_process_exec_impl E name uname argc argv w;
      (case f of Returned g \<Rightarrow> Some (g, ofc_process_term_impl E g w) | Ended \<Rightarrow> None) })
    (\<lambda>(g, w'). g = h \<and> fst (ofc_process_get_id_impl E g w') = 0 \<and> Proc (SysKill 0 SIGTERM) \<in> fst ` set (calls w'))"
proof -
  have D: "answers E (Pkg Malloc) v r \<Longrightarrow> r_addr r \<noteq> OFC_NULL" "answers E (Proc SysVfork) v r \<Longrightarrow> \<not> r_ret r < 0"
    "answers E (Proc SysFork) v r \<Longrightarrow> r_ret r < 0"
    "answers E (Pkg (HandleCreate OFC_HANDLE_PROCESS 0)) v r \<Longrightarrow> r_addr r = h"
    "answers E (Pkg (HandleLock h)) v r \<Longrightarrow> r_addr r = 0" for v r
    using argv(1) forks hc lock by (auto simp: answers_def not_less less_imp_le)
  have pid: "pid_of 0 = 0" by (simp add: pid_of_def)
  have get: "fst (ofc_process_get_id_impl E h v) = 0" for v
    using lock by (simp add: ofc_process_get_id_impl_def call_addr_def call_def pid Let_def)
  have exec: "yields (ofc_process_exec_impl E name uname argc argv w) (\<lambda>(f, w'). f = Returned h)"
    using argv(2) log
    by (auto simp: ofc_process_exec_impl_def run_first_child_def ofc_process_crash_impl_def ofc_write_console_impl_def
        Let_def wp D wait_statusD [OF status] split: call_splits)
  have "Proc (SysKill 0 SIGTERM) \<in> fst ` set (calls (ofc_process_term_impl E h v))" for v
    using lock by (simp add: ofc_process_term_impl_def call_addr_def call_void_def call_def pid Let_def)
  with get show ?thesis
    unfolding yields_bind by (intro yields_mono [OF exec]) (auto simp: wp)
qed

text \<open>The results of \<open>setgid\<close> and \<open>setuid\<close> are not looked at.\<close>

theorem daemon_keeps_privileges:
  assumes "cuname \<noteq> OFC_NULL" and "\<And>hist. respond E hist (Proc (SysGetpwnam cuname)) = user" "r_addr user \<noteq> OFC_NULL"
    and "\<And>hist. r_ret (respond E hist (Proc (SysSetuid (snd (r_pair user))))) = -1"
    and "\<And>hist. r_ret (respond E hist (Proc (SysExecve cname args))) = 0"
  shows "yields (run_daemon E cname args cuname w) (\<lambda>w'.
    map fst (take 4 (calls w')) = [Proc (SysExecve cname args), Proc (SysSetuid (snd (r_pair user))),
      Proc (SysSetgid (fst (r_pair user))), Proc (SysGetpwnam cuname)] \<and> g_fd w' = g_fd w)"
  using assms by (simp add: run_daemon_def call_def call_void_def call_ret_def wp Let_def)

section \<open>Load addresses\<close>

definition is_core :: "env \<Rightarrow> byte list \<times> 64 word \<Rightarrow> bool" where
  "is_core E lib \<longleftrightarrow> ofc_substr E ''libof_core_jni'' (fst lib) \<ge> 0"

definition is_smb :: "env \<Rightarrow> byte list \<times> 64 word \<Rightarrow> bool" where
  "is_smb E lib \<longleftrightarrow> \<not> is_core E lib \<and> ofc_substr E ''libof_smb_jni'' (fst lib) \<ge> 0"

fun load_line :: "env \<Rightarrow> byte list \<times> 64 word \<Rightarrow> byte list" where
  "load_line E lib =
     (if is_core E lib then library_line E ''libof_core_jni'' (snd lib)
      else if is_smb E lib then library_line E ''libof_smb_jni'' (snd lib) else [])"

lemma dump_libs_run:
  "g_fd w = d \<Longrightarrow> d \<noteq> STDOUT_FILENO \<Longrightarrow>
   yields (run_ops (process_dump_libs_callback E) libs w) (\<lambda>w'. g_fd w' = d \<and>
     core_load_addr w' = last (core_load_addr w # map snd (filter (is_core E) libs)) \<and>
     smb_load_addr w' = last (smb_load_addr w # map snd (filter (is_smb E) libs)) \<and>
     contents (calls w') d = contents (calls w) d @ concat (map (load_line E) libs))"
proof (induction libs arbitrary: w)
  case Nil
  then show ?case by (simp add: wp)
next
  case (Cons lib libs)
  have "yields (process_dump_libs_callback E lib w) (\<lambda>v. g_fd v = d \<and>
     core_load_addr v = (if is_core E lib then snd lib else core_load_addr w) \<and>
     smb_load_addr v = (if is_smb E lib then snd lib else smb_load_addr w) \<and>
     contents (calls v) d = contents (calls w) d @ load_line E lib)"
    using Cons.prems
    by (auto simp: process_dump_libs_callback_def ofc_write_console_impl_def is_core_def is_smb_def
        case_prod_beta Let_def wp split: call_splits)
  then show ?case
    using Cons.prems by (auto simp: wp elim!: yields_mono intro!: yields_mono [OF Cons.IH])
qed

theorem dump_libs:
  assumes "\<And>hist. respond E hist (Proc SysDlIterate) = r" and "g_fd w \<noteq> STDOUT_FILENO"
  shows "yields (ofc_process_dump_libs_impl E w) (\<lambda>w'. g_fd w' = g_fd w \<and>
    core_load_addr w' = last (core_load_addr w # map snd (filter (is_core E) (zip (r_hosts r) (r_items r)))) \<and>
    smb_load_addr w' = last (smb_load_addr w # map snd (filter (is_smb E) (zip (r_hosts r) (r_items r)))) \<and>
    contents (calls w') (g_fd w) = contents (calls w) (g_fd w) @
      concat (map (load_line E) (zip (r_hosts r) (r_items r))))"
  using dump_libs_run [OF refl, of "logged (Proc SysDlIterate) r w"] assms(2)
  by (simp add: ofc_process_dump_libs_impl_def call_known(1) [OF assms(1)] del: load_line.simps)

text \<open>The top bit tells the two libraries apart, and the rest of the bits are the offset.\<close>

lemma below_top_bit:
  assumes "(x :: 64 word) < top_bit"
  shows "x AND top_bit = 0" "(x OR top_bit) AND NOT top_bit = x" "(x OR top_bit) AND top_bit \<noteq> 0" "x OR top_bit \<noteq> 0"
proof -
  have t: "bit top_bit n \<longleftrightarrow> n = 63" for n
  proof -
    have "bit ((2 :: 64 word) ^ 63) n \<longleftrightarrow> n = 63" by (simp only: bit_exp_iff) auto
    then show ?thesis by simp
  qed
  have n: "\<not> bit x 63"
  proof
    assume "bit x 63"
    then have "odd (x div top_bit)" by (simp add: bit_iff_odd)
    moreover have "unat x div unat (top_bit :: 64 word) = 0"
      using assms by (intro div_less) (simp only: word_less_nat_alt)
    ultimately show False by (simp only: word_arith_nat_div) simp
  qed
  have x: "\<not> (bit x k \<and> bit top_bit k)" for k
  proof
    assume a: "bit x k \<and> bit top_bit k"
    then have "bit top_bit k" by blast
    then have "k = 63" by (simp only: t)
    with a n show False by blast
  qed
  show "x AND top_bit = 0" by (rule bit_word_eqI) (use x in \<open>simp add: bit_simps\<close>)
  show "(x OR top_bit) AND NOT top_bit = x" by (rule bit_word_eqI) (use x in \<open>auto simp: bit_simps\<close>)
  have "bit ((x OR top_bit) AND top_bit) 63" by (simp add: bit_simps t)
  then show b: "(x OR top_bit) AND top_bit \<noteq> 0" by (metis bit_0_eq bot_apply bot_bool_def)
  then show "x OR top_bit \<noteq> 0" by (rule contrapos_nn) (simp only: and_zero_eq zero_and_eq)
qed

text \<open>
  C22. A relative address, when it is not 0, determines the address it was computed from: its
  top bit tells which of the two libraries it lies in, and the rest is the offset from that
  library's load address. The library chosen is the one loaded last before the address.
\<close>

theorem relative_addr_inverse:
  assumes "ofc_process_relative_addr_impl addr w = r" and "r \<noteq> 0" and "addr < top_bit"
  shows "addr = (if r AND top_bit = 0 then core_load_addr w + r else smb_load_addr w + (r AND NOT top_bit)) \<and>
    (r AND top_bit \<noteq> 0 \<longleftrightarrow> smb_load_addr w < addr \<and> (core_load_addr w < addr \<longrightarrow> core_load_addr w < smb_load_addr w))"
proof -
  let ?c = "core_load_addr w" and ?s = "smb_load_addr w"
  have below: "addr - b < top_bit" if "b < addr" for b
    by (rule le_less_trans [OF word_sub_le [OF less_imp_le [OF that]] assms(3)])
  have r: "relative_addr ?c ?s addr = r" using assms(1) by (simp add: ofc_process_relative_addr_impl_def)
  consider (core) "r = addr - ?c" "?c < addr" "\<not> (?s < addr \<and> (?c < addr \<longrightarrow> ?c < ?s))"
    | (smb) "r = (addr - ?s) OR top_bit" "?s < addr" "?c < addr \<longrightarrow> ?c < ?s"
    using r assms(2) unfolding relative_addr_def by (auto split: if_splits dest: less_not_sym)
  then show ?thesis
  proof cases
    case core
    note C = below_top_bit(1) [OF below [OF core(2)]]
    show ?thesis using C core(3) by (simp add: core(1))
  next
    case smb
    note S = below_top_bit(2,3) [OF below [OF smb(2)]]
    show ?thesis using S smb(2,3) by (simp add: smb(1))
  qed
qed

section \<open>Instances\<close>

text \<open>
  An outside with two libraries, where the first fork gives process 7 and the second the answer
  \<open>pid2\<close>, and where nobody may change the user.
\<close>

definition proc_env :: "int \<Rightarrow> env" where
  "proc_env pid2 = ref_env (\<lambda>hist c. case c of
     Pkg Malloc \<Rightarrow> no_resp\<lparr>r_addr := 64\<rparr>
   | Pkg (HandleCreate t p) \<Rightarrow> no_resp\<lparr>r_addr := 9\<rparr>
   | Proc SysVfork \<Rightarrow> no_resp\<lparr>r_ret := 7\<rparr>
   | Proc SysFork \<Rightarrow> no_resp\<lparr>r_ret := pid2\<rparr>
   | Proc (SysWaitpid p) \<Rightarrow> no_resp\<lparr>r_pair := (256 * (exit_code hist mod 256), 0)\<rparr>
   | Proc (SysGetpwnam n) \<Rightarrow> no_resp\<lparr>r_addr := 80, r_pair := (100, 101)\<rparr>
   | Proc (SysSetuid u) \<Rightarrow> no_resp\<lparr>r_ret := -1\<rparr>
   | Proc SysDlIterate \<Rightarrow> no_resp\<lparr>r_hosts := [bytes ''libc'', bytes ''smb'', bytes ''core''], r_items := [0x1000, 0x2000, 0x3000]\<rparr>
   | _ \<Rightarrow> no_resp)\<lparr>
     library_line := \<lambda>lib a. bytes lib,
     ofc_substr := \<lambda>lib name. if name = bytes ''core'' \<and> lib = ''libof_core_jni'' \<or>
       name = bytes ''smb'' \<and> lib = ''libof_smb_jni'' then 0 else -1\<rparr>"

lemma proc_env_status: "wait_status_ok (proc_env pid2)"
  by (simp add: wait_status_ok_def proc_env_def ref_env_def no_resp_def)

theorem exec_starts_witness:
  "yields (ofc_process_exec_impl (proc_env 8) 16 24 1 [32] empty_world) (\<lambda>(f, w'). f = Returned 9)"
proof -
  have "yields (ofc_process_exec_impl (proc_env 8) 16 24 1 [32] empty_world) (\<lambda>(f, w'). f = Returned 9 \<and>
    Proc (SysWaitpid 7) \<in> fst ` set (calls w') \<and>
    Pkg (HandleCreate OFC_HANDLE_PROCESS (word_of_int 8)) \<in> fst ` set (calls w') \<and>
    map fst (take 3 (calls w')) = [Pkg (Free 64), Pkg (Free 0), Pkg (Free 0)] \<and> same_mem empty_world w')"
    by (rule exec_starts [OF proc_env_status]) (simp_all add: proc_env_def ref_env_def no_resp_def)
  then show ?thesis by (rule yields_mono) auto
qed

theorem exec_fork_fails_witness:
  "yields (do {
      (f, w) \<leftarrow> ofc_process_exec_impl (proc_env (-1)) 16 24 1 [32] (empty_world\<lparr>g_fd := 5\<rparr>);
      (case f of Returned g \<Rightarrow> Some (g, ofc_process_term_impl (proc_env (-1)) g w) | Ended \<Rightarrow> None) })
    (\<lambda>(g, w'). g = 9 \<and> fst (ofc_process_get_id_impl (proc_env (-1)) g w') = 0 \<and>
       Proc (SysKill 0 SIGTERM) \<in> fst ` set (calls w'))"
  by (rule exec_fork_fails [OF proc_env_status]) (simp_all add: proc_env_def ref_env_def no_resp_def)

theorem daemon_keeps_privileges_witness:
  "yields (run_daemon (proc_env 0) 16 [0] 24 empty_world) (\<lambda>w'.
     map fst (calls w') = [Proc (SysExecve 16 [0]), Proc (SysSetuid 101), Proc (SysSetgid 100), Proc (SysGetpwnam 24)])"
proof -
  let ?user = "no_resp\<lparr>r_addr := 80, r_pair := (100, 101)\<rparr>"
  have "yields (run_daemon (proc_env 0) 16 [0] 24 empty_world) (\<lambda>w'.
    map fst (take 4 (calls w')) = [Proc (SysExecve 16 [0]), Proc (SysSetuid (snd (r_pair ?user))),
      Proc (SysSetgid (fst (r_pair ?user))), Proc (SysGetpwnam 24)] \<and> g_fd w' = g_fd empty_world)"
    by (rule daemon_keeps_privileges) (simp_all add: proc_env_def ref_env_def no_resp_def)
  moreover have "yields (run_daemon (proc_env 0) 16 [0] 24 empty_world) (\<lambda>w'. length (calls w') = 4)"
    by (simp add: run_daemon_def call_def call_void_def call_ret_def wp Let_def proc_env_def ref_env_def no_resp_def empty_world_def)
  ultimately show ?thesis by (auto simp: yields_def)
qed

theorem dump_libs_witness:
  "yields (ofc_process_dump_libs_impl (proc_env 0) (empty_world\<lparr>g_fd := 5\<rparr>)) (\<lambda>w'.
     core_load_addr w' = 0x3000 \<and> smb_load_addr w' = 0x2000 \<and>
     contents (calls w') 5 = bytes ''libof_smb_jnilibof_core_jni'')"
proof -
  have r: "respond (proc_env 0) hist (Proc SysDlIterate) = no_resp\<lparr>
      r_hosts := [bytes ''libc'', bytes ''smb'', bytes ''core''], r_items := [0x1000, 0x2000, 0x3000]\<rparr>" for hist
    by (simp add: proc_env_def ref_env_def)
  show ?thesis
    by (rule yields_mono [OF dump_libs [OF r]])
       (auto simp: no_resp_def is_core_def is_smb_def proc_env_def bytes_def empty_world_def)
qed

theorem relative_addr_inverse_witness:
  "ofc_process_relative_addr_impl 0x2010 (empty_world\<lparr>core_load_addr := 0x3000, smb_load_addr := 0x2000\<rparr>) = 0x8000000000000010 \<and>
   (0x2010 :: 64 word) = 0x2000 + (0x8000000000000010 AND NOT top_bit)"
proof -
  let ?w = "empty_world\<lparr>core_load_addr := 0x3000, smb_load_addr := 0x2000\<rparr>"
  have r: "ofc_process_relative_addr_impl 0x2010 ?w = 0x8000000000000010"
    by (simp add: ofc_process_relative_addr_impl_def relative_addr_def)
  show ?thesis using relative_addr_inverse [OF r] r by simp
qed

end
