(* ===== verification/OFC_Env.thy ===== *)
theory OFC_Env
  imports OFC_Reference
begin

text \<open>
  Settings from the process environment (src/src/env\_android.c): the value of a setting is the
  value of an environment variable, copied to the caller's buffer. The number of settings,
  \<open>OFC_ENV_NUM\<close>, is defined by the core; the table has three names, and an index past them asks
  for the null name, which is undefined.
\<close>

definition env2str :: "string list" where
  "env2str = [''OPEN_FILES_HOME'', ''OPEN_FILES_INSTALL'', ''EXTERNAL_STORAGE'']"

definition ofc_env_get_impl :: "env \<Rightarrow> nat \<Rightarrow> ptr \<Rightarrow> 64 word \<Rightarrow> world \<Rightarrow> bool result" where
  "ofc_env_get_impl E value ptr len w =
     (if ptr \<noteq> OFC_NULL \<and> value < OFC_ENV_NUM E then
        if value < length env2str then
          let (env, w) = call_addr E (File (SysGetenv (env2str ! value))) w in
          if env \<noteq> OFC_NULL then
            let (path, w) = call_addr E (Core (Cstr2tstr env)) w;
                w = call_void E (Core (Tstrncpy ptr path len)) w
            in Some (True, call_void E (Pkg (Free path)) w)
          else Some (False, w)
        else None
      else Some (False, w))"

text \<open>The outside as a map from names to the addresses of their values.\<close>

definition env_map :: "env \<Rightarrow> (string \<Rightarrow> ptr) \<Rightarrow> bool" where
  "env_map E vals \<longleftrightarrow> (\<forall>hist name. r_addr (respond E hist (File (SysGetenv name))) = vals name)"

theorem env_get_copies:
  assumes "env_map E vals" and "OFC_ENV_NUM E \<le> 3"
    and "\<And>hist a. r_addr (respond E hist (Core (Cstr2tstr a))) = conv a"
  shows "yields (ofc_env_get_impl E value ptr len w) (\<lambda>(ok, w').
    let v = vals (env2str ! value) in
    ok = (ptr \<noteq> OFC_NULL \<and> value < OFC_ENV_NUM E \<and> v \<noteq> OFC_NULL) \<and>
    (ok \<longrightarrow> map fst (take 2 (calls w')) = [Pkg (Free (conv v)), Core (Tstrncpy ptr (conv v) len)]) \<and>
    same_mem w w')"
  using assms
  by (auto simp: ofc_env_get_impl_def env_map_def answers_def env2str_def wp Let_def split: call_splits)

definition env_env :: env where
  "env_env = ref_env (\<lambda>hist c. case c of
     File (SysGetenv name) \<Rightarrow> if name = ''OPEN_FILES_INSTALL'' then no_resp\<lparr>r_addr := 40\<rparr> else no_resp
   | Core (Cstr2tstr a) \<Rightarrow> no_resp\<lparr>r_addr := a + 8\<rparr>
   | _ \<Rightarrow> no_resp)"

theorem env_get_copies_witness:
  "yields (ofc_env_get_impl env_env 1 64 100 empty_world) (\<lambda>(ok, w'). ok \<and> Core (Tstrncpy 64 48 100) \<in> fst ` set (calls w')) \<and>
   yields (ofc_env_get_impl env_env 2 64 100 empty_world) (\<lambda>(ok, w'). \<not> ok)"
proof -
  define vals :: "string \<Rightarrow> ptr" where "vals name = (if name = ''OPEN_FILES_INSTALL'' then 40 else 0)" for name
  have E: "env_map env_env vals" "OFC_ENV_NUM env_env \<le> 3"
    by (simp_all add: env_map_def env_env_def vals_def ref_env_def no_resp_def)
  have conv: "r_addr (respond env_env hist (Core (Cstr2tstr a))) = a + 8" for hist a
    by (simp add: env_env_def)
  have num: "OFC_ENV_NUM env_env = 3" by (simp add: env_env_def ref_env_def)
  have in_take: "c \<in> fst ` set cs" if "map fst (take 2 cs) = [a, c]" for a c :: xcall and cs :: history
  proof -
    have "c \<in> set (map fst (take 2 cs))" using that by simp
    then show ?thesis by (auto dest: in_set_takeD)
  qed
  show ?thesis
    by (intro conjI; rule yields_mono [OF env_get_copies [OF E conv]])
       (auto simp: vals_def env2str_def num intro: in_take)
qed

end
