(* ===== verification/OFC_Backtrace.thy ===== *)
theory OFC_Backtrace
  imports OFC_Reference
begin

text \<open>
  Stack traces (src/src/backtrace\_android.c). The return addresses of the calling functions are
  an argument; the caller's array is a list. Two of the three bodies the preprocessor chooses from
  are the same; the third, under \<open>__cyg_profile\<close>, is in OFC_Profile.
\<close>

definition store :: "nat \<Rightarrow> ptr \<Rightarrow> ptr list \<Rightarrow> ptr list option" where
  "store i a trace = (if i < length trace then Some (trace[i := a]) else None)"

definition ofc_backtrace_impl :: "(nat \<Rightarrow> ptr) \<Rightarrow> ptr list \<Rightarrow> 64 word \<Rightarrow> ptr list option" where
  "ofc_backtrace_impl return_address trace len = do {
     trace \<leftarrow> (if len > 0 then store 0 (return_address 0) trace else Some trace);
     trace \<leftarrow> (if len > 1 then store 1 (return_address 1) trace else Some trace);
     trace \<leftarrow> (if len > 2 then store 2 (return_address 2) trace else Some trace);
     trace \<leftarrow> (if len > 3 then store 3 (return_address 3) trace else Some trace);
     if len > 4 then store 4 (return_address 4) trace else Some trace
   }"

text \<open>The array after the first \<open>k\<close> of the five steps, when \<open>n\<close> entries are wanted.\<close>

definition filled :: "(nat \<Rightarrow> ptr) \<Rightarrow> nat \<Rightarrow> ptr list \<Rightarrow> nat \<Rightarrow> ptr list" where
  "filled f n trace k = map f [0..<min k n] @ drop (min k n) trace"

lemma store_next:
  assumes "n \<le> length trace" and "m = Suc k"
  shows "(if k < n then store k (f k) (filled f n trace k) else Some (filled f n trace k)) = Some (filled f n trace m)"
proof (cases "k < n")
  case True
  then have "drop k trace = trace ! k # drop (Suc k) trace"
    using assms(1) by (simp add: Cons_nth_drop_Suc)
  then show ?thesis
    using True assms by (simp add: store_def filled_def min_def list_update_append)
next
  case False
  then show ?thesis using assms(2) by (simp add: filled_def min_def)
qed

theorem backtrace_fills:
  assumes "unat len \<le> length trace"
  shows "ofc_backtrace_impl f trace len =
    Some (map f [0..<min 5 (unat len)] @ drop (min 5 (unat len)) trace)"
proof -
  have "1 = Suc 0" "2 = Suc 1" "3 = Suc 2" "4 = Suc 3" "5 = Suc 4" by simp_all
  note step = this [THEN store_next [OF assms, where f = f]]
  have lt: "0 < len \<longleftrightarrow> 0 < unat len" "1 < len \<longleftrightarrow> 1 < unat len" "2 < len \<longleftrightarrow> 2 < unat len"
    "3 < len \<longleftrightarrow> 3 < unat len" "4 < len \<longleftrightarrow> 4 < unat len"
    by (simp_all add: word_less_nat_alt)
  have "ofc_backtrace_impl f (filled f (unat len) trace 0) len = Some (filled f (unat len) trace 5)"
    unfolding ofc_backtrace_impl_def lt
    by (simp only: step bind.bind_lunit)
  then show ?thesis by (simp add: filled_def)
qed

theorem backtrace_fills_witness: "ofc_backtrace_impl (\<lambda>i. 100 + of_nat i) (replicate 8 0) 3 = Some ([100, 101, 102] @ replicate 5 0)"
  using backtrace_fills [of 3 "replicate 8 0" "\<lambda>i. 100 + of_nat i"] by (simp add: upt_rec)

end
