(* ===== verification/OFC_Race.thy ===== *)
theory OFC_Race
  imports OFC_Waitset
begin

text \<open>
  A thread that waits on a set of events while other threads set and reset those events and wake
  the set. In OFC_Waitset the other threads act only while the waiting thread is in \<open>poll\<close>; here
  they call the functions of the code before and after every access of the waiting thread to an
  event: each test, each look at a type, each reset, in the scan as in the walk through the pipe.

  A call of another thread is one step: setting an event raises the flag and writes to the pipe
  under the event's mutex, and between the two the waiting thread can neither test nor reset that
  event. What others write while the waiting thread is reading the pipe only becomes longer at its
  far end, and what they write while it is in \<open>poll\<close> is as if it had been written just before, so
  the steps at the events are all there are. The pipe follows from the history of reads and writes;
  a full pipe refuses a write, and the code does not notice.
\<close>

section \<open>The other threads\<close>

datatype other_op = SetEv handle | ResetEv handle | WakeSet

fun other_step :: "env \<Rightarrow> handle \<Rightarrow> other_op \<Rightarrow> world \<Rightarrow> world option" where
  "other_step E h (SetEv g) w = ofc_event_set_impl E g w"
| "other_step E h (ResetEv g) w = ofc_event_reset_impl E g w"
| "other_step E h WakeSet w = ofc_waitset_wake_impl E h w"

fun announces :: "other_op \<Rightarrow> handle list" where
  "announces (SetEv g) = [g]"
| "announces (ResetEv g) = []"
| "announces WakeSet = [OFC_HANDLE_NULL]"

fun on_set :: "handle list \<Rightarrow> other_op \<Rightarrow> bool" where
  "on_set hs (SetEv g) = (g \<in> set hs)"
| "on_set hs (ResetEv g) = (g \<in> set hs)"
| "on_set hs WakeSet = True"

fun apply_op :: "other_op \<Rightarrow> (handle \<Rightarrow> android_event) \<Rightarrow> handle \<Rightarrow> android_event" where
  "apply_op (SetEv g) ev = ev(g := ev g\<lparr>signalled := True\<rparr>)"
| "apply_op (ResetEv g) ev = ev(g := ev g\<lparr>signalled := False\<rparr>)"
| "apply_op WakeSet ev = ev"

text \<open>Events \<open>hs\<close>, each in a place of its own, that belong to the wait set \<open>h\<close>.\<close>

definition events_in :: "env \<Rightarrow> handle list \<Rightarrow> (handle \<Rightarrow> ptr) \<Rightarrow> handle \<Rightarrow> bool" where
  "events_in E hs P h \<longleftrightarrow> inj_on P (set hs) \<and> h \<noteq> OFC_HANDLE_NULL \<and> (\<forall>g\<in>set hs. g \<noteq> OFC_HANDLE_NULL \<and>
     (\<forall>hist. r_type (respond E hist (Pkg (HandleGetType g))) = OFC_HANDLE_EVENT) \<and>
     (\<forall>hist. r_addr (respond E hist (Pkg (HandleGetWaitSet g))) = h))"

lemma events_inD:
  assumes "events_in E hs P h"
  shows "inj_on P (set hs)" and "h \<noteq> OFC_HANDLE_NULL" and "g \<in> set hs \<Longrightarrow> g \<noteq> OFC_HANDLE_NULL"
    and "g \<in> set hs \<Longrightarrow> r_type (respond E hist (Pkg (HandleGetType g))) = OFC_HANDLE_EVENT"
    and "g \<in> set hs \<Longrightarrow> r_addr (respond E hist (Pkg (HandleGetWaitSet g))) = h"
  using assms by (simp_all add: events_in_def)

section \<open>The pipe\<close>

text \<open>
  What a history says of the pipe of a wait set: the handles in it, how many writes it has refused,
  the handles that were read since the last \<open>poll\<close> and the results of all polls, newest first.
\<close>

record pipe_state =
  content :: "handle list"
  refused :: nat
  taken :: "handle list"
  polled :: "int list"

fun pipe_of :: "android_wait_set \<Rightarrow> history \<Rightarrow> pipe_state" where
  "pipe_of aws [] = \<lparr>content = [], refused = 0, taken = [], polled = []\<rparr>"
| "pipe_of aws ((Sys (SysWrite d g), r) # cs) = (let p = pipe_of aws cs in
     if d \<noteq> pipe_write aws then p
     else if r_ret r = 8 then p\<lparr>content := content p @ [g]\<rparr> else p\<lparr>refused := refused p + 1\<rparr>)"
| "pipe_of aws ((Sys (SysRead d), r) # cs) = (let p = pipe_of aws cs in
     if d = pipe_read aws \<and> r_ret r = 8 then p\<lparr>content := tl (content p), taken := r_addr r # taken p\<rparr> else p)"
| "pipe_of aws ((Sys (SysPoll fds t), r) # cs) = (let p = pipe_of aws cs in p\<lparr>taken := [], polled := r_ret r # polled p\<rparr>)"
| "pipe_of aws (_ # cs) = pipe_of aws cs"

text \<open>
  The two ends of a non-blocking pipe: handles are read in the order in which they were written,
  a read of the empty pipe fails, and a write is refused only when the pipe is not empty.
\<close>

definition pipe_law :: "env \<Rightarrow> android_wait_set \<Rightarrow> bool" where
  "pipe_law E aws \<longleftrightarrow> (\<forall>hist.
     (let r = respond E hist (Sys (SysRead (pipe_read aws))) in
      case content (pipe_of aws hist) of [] \<Rightarrow> r_ret r = -1 | g # gs \<Rightarrow> r_ret r = 8 \<and> r_addr r = g) \<and>
     (\<forall>g. r_ret (respond E hist (Sys (SysWrite (pipe_write aws) g))) = 8 \<or>
          r_ret (respond E hist (Sys (SysWrite (pipe_write aws) g))) = -1 \<and> content (pipe_of aws hist) \<noteq> []))"

lemma pipe_read_law:
  assumes "pipe_law E aws"
  shows "content (pipe_of aws hist) = [] \<Longrightarrow> r_ret (respond E hist (Sys (SysRead (pipe_read aws)))) = -1"
    and "content (pipe_of aws hist) = g # gs \<Longrightarrow> r_ret (respond E hist (Sys (SysRead (pipe_read aws)))) = 8"
    and "content (pipe_of aws hist) = g # gs \<Longrightarrow> r_addr (respond E hist (Sys (SysRead (pipe_read aws)))) = g"
  using assms [unfolded pipe_law_def, THEN spec, of hist] by (simp_all add: Let_def)

text \<open>A handle is offered to the pipe: it is taken up, or refused and lost.\<close>

definition offered :: "handle list \<Rightarrow> pipe_state \<Rightarrow> pipe_state \<Rightarrow> bool" where
  "offered gs p p' \<longleftrightarrow> p' = p\<lparr>content := content p @ gs\<rparr> \<or>
     gs \<noteq> [] \<and> content p \<noteq> [] \<and> p' = p\<lparr>refused := refused p + 1\<rparr>"

lemma write_offers:
  assumes "pipe_law E aws" and "answers E (Sys (SysWrite (pipe_write aws) g)) w r"
  shows "offered [g] (pipe_of aws (calls w)) (pipe_of aws ((Sys (SysWrite (pipe_write aws) g), r) # calls w))"
  using assms by (force simp: pipe_law_def answers_def offered_def Let_def)

section \<open>What the others do\<close>

text \<open>Two steps of \<open>ofc_waitset_signal_impl\<close> and what it writes, and the two flags.\<close>

lemma signal_offers:
  assumes ws: "waitset_at E h q ws aws w"
  shows "yields (ofc_waitset_signal_impl E h g w) (\<lambda>w'. ev_mem w' = ev_mem w \<and> ws_mem w' = ws_mem w \<and>
    aws_mem w' = aws_mem w \<and> (\<forall>k. dead (calls w') k = dead (calls w) k) \<and>
    (\<forall>d. written (calls w') d = written (calls w) d @ (if d = pipe_write aws then [g] else [])) \<and>
    reads (calls w') d = reads (calls w) d \<and>
    (pipe_law E aws \<longrightarrow> offered [g] (pipe_of aws (calls w)) (pipe_of aws (calls w'))))"
proof -
  let ?w = "logged (Pkg (HandleLock h)) (respond E (calls w) (Pkg (HandleLock h))) w"
  have "offered [g] (pipe_of aws (calls w)) (pipe_of aws ((Sys (SysWrite (pipe_write aws) g), r) # calls ?w))"
    if "pipe_law E aws" "answers E (Sys (SysWrite (pipe_write aws) g)) ?w r" for r
    using write_offers [OF that] by simp
  then show ?thesis
    using waitset_atD [OF ws] waitset_at_lock [OF ws]
    by (auto simp: ofc_waitset_signal_impl_def Let_def wp simp del: pipe_of.simps(2) split: call_splits)
qed

text \<open>
  The same for an operation of another thread on the set: the events, the pipe and the wait set.
\<close>

definition acted :: "env \<Rightarrow> handle list \<Rightarrow> (handle \<Rightarrow> ptr) \<Rightarrow> android_wait_set \<Rightarrow> (handle \<Rightarrow> android_event) \<Rightarrow> handle list \<Rightarrow>
   world \<Rightarrow> world \<Rightarrow> bool" where
  "acted E hs P aws ev gs w w' \<longleftrightarrow> (\<forall>g\<in>set hs. event_at E g (P g) (ev g) w') \<and>
     ws_mem w' = ws_mem w \<and> aws_mem w' = aws_mem w \<and> (\<forall>k. dead (calls w') k = dead (calls w) k) \<and>
     (\<forall>d. written (calls w') d = written (calls w) d @ (if d = pipe_write aws then gs else [])) \<and>
     reads (calls w') (pipe_read aws) = reads (calls w) (pipe_read aws) \<and>
     (pipe_law E aws \<longrightarrow> offered gs (pipe_of aws (calls w)) (pipe_of aws (calls w')))"

lemma event_at_update:
  assumes "\<forall>k\<in>set hs. event_at E k (P k) (ev k) w" and "g \<in> set hs" and "inj_on P (set hs)"
    and "ev_mem w' = (ev_mem w)(P g \<mapsto> e)" and "\<And>k. dead (calls w') k = dead (calls w) k"
  shows "\<forall>k\<in>set hs. event_at E k (P k) ((ev(g := e)) k) w'"
proof
  fix k
  assume k: "k \<in> set hs"
  then have "P k = P g \<longleftrightarrow> k = g" using assms(2,3) by (auto simp: inj_on_def)
  with k assms(1,4,5) show "event_at E k (P k) ((ev(g := e)) k) w'" by (simp add: event_at_def)
qed

lemma reset_unheard:
  "returns (ofc_event_reset_impl E g w) (\<lambda>w'. (\<forall>d. written (calls w') d = written (calls w) d) \<and>
     reads (calls w') d = reads (calls w) d \<and> pipe_of aws (calls w') = pipe_of aws (calls w))"
  by (auto simp: ofc_event_reset_impl_def Let_def wp split: call_splits)

lemma set_offers:
  assumes at: "event_at E g p e w" and link: "\<And>hist. r_addr (respond E hist (Pkg (HandleGetWaitSet g))) = h" "h \<noteq> OFC_HANDLE_NULL"
    and ws: "waitset_at E h q ws aws w"
  shows "yields (ofc_event_set_impl E g w) (\<lambda>w'. ev_mem w' = (ev_mem w)(p \<mapsto> e\<lparr>signalled := True\<rparr>) \<and>
    ws_mem w' = ws_mem w \<and> aws_mem w' = aws_mem w \<and> (\<forall>k. dead (calls w') k = dead (calls w) k) \<and>
    (\<forall>d. written (calls w') d = written (calls w) d @ (if d = pipe_write aws then [g] else [])) \<and>
    reads (calls w') d = reads (calls w) d \<and>
    (pipe_law E aws \<longrightarrow> offered [g] (pipe_of aws (calls w)) (pipe_of aws (calls w'))))"
proof -
  have sig: "yields (ofc_waitset_signal_impl E h g w1) (\<lambda>w2. ev_mem w2 = ev_mem w1 \<and> ws_mem w2 = ws_mem w \<and> aws_mem w2 = aws_mem w \<and> (\<forall>k. dead (calls w2) k = dead (calls w) k) \<and>
      (\<forall>d. written (calls w2) d = written (calls w) d @ (if d = pipe_write aws then [g] else [])) \<and>
      reads (calls w2) d = reads (calls w) d \<and>
      (pipe_law E aws \<longrightarrow> offered [g] (pipe_of aws (calls w)) (pipe_of aws (calls w2))))"
    if "ws_mem w1 = ws_mem w" "aws_mem w1 = aws_mem w" "\<And>k. dead (calls w1) k = dead (calls w) k"
      "\<And>d. written (calls w1) d = written (calls w) d" "reads (calls w1) d = reads (calls w) d"
      "pipe_of aws (calls w1) = pipe_of aws (calls w)" for w1
  proof -
    have "waitset_at E h q ws aws w1" using ws that(1-3) by (simp add: waitset_at_def)
    from signal_offers [OF this, of g d] show ?thesis using that by (auto elim!: yields_mono)
  qed
  show ?thesis
    using event_atD [OF at] event_at_lock [OF at] link(2)
    by (auto simp: ofc_event_set_impl_def Let_def wp answers_def link(1) split: call_splits
        intro!: yields_mono [OF sig])
qed

lemma other_acts:
  assumes set: "events_in E hs P h" and ev: "\<forall>g\<in>set hs. event_at E g (P g) (ev g) w" and ws: "waitset_at E h q ws aws w"
    and on: "on_set hs op"
  shows "yields (other_step E h op w) (acted E hs P aws (apply_op op ev) (announces op) w)"
proof (cases op)
  case (SetEv g)
  with on have g: "g \<in> set hs" by simp
  have at: "event_at E g (P g) (ev g) w" using ev g by blast
  have link: "r_addr (respond E hist (Pkg (HandleGetWaitSet g))) = h" "h \<noteq> OFC_HANDLE_NULL" for hist
    using set g by (simp_all add: events_in_def)
  show ?thesis
    unfolding SetEv other_step.simps
  proof (rule yields_mono [OF set_offers [OF at link ws, where d = "pipe_read aws"]], goal_cases)
    case (1 w')
    then show ?case
      using event_at_update [OF ev g events_inD(1) [OF set], of w' "ev g\<lparr>signalled := True\<rparr>"] by (simp add: acted_def del: fun_upd_apply)
  qed
next
  case (ResetEv g)
  with on have g: "g \<in> set hs" by simp
  have at: "event_at E g (P g) (ev g) w" using ev g by blast
  show ?thesis
    unfolding ResetEv other_step.simps
  proof (rule yields_mono [OF yields_and_returns [OF event_reset_live [OF at]
        reset_unheard [where d = "pipe_read aws" and aws = aws]]], goal_cases)
    case (1 w')
    then have fr: "event_frame (P g) (ev g\<lparr>signalled := False\<rparr>) w w'" by simp
    show ?case
      using 1 event_at_update [OF ev g events_inD(1) [OF set] event_frameD(1) [OF fr] event_frameD(2) [OF fr]] event_frameD [OF fr]
      by (simp add: acted_def offered_def del: fun_upd_apply)
  qed
next
  case WakeSet
  show ?thesis
    unfolding WakeSet other_step.simps ofc_waitset_wake_impl_def
    by (rule yields_mono [OF signal_offers [OF ws, where d = "pipe_read aws"]])
       (use ev in \<open>simp add: acted_def event_at_def\<close>)
qed

lemma acted_waitset: "acted E hs P aws ev gs w w' \<Longrightarrow> waitset_at E h q ws aws w \<Longrightarrow> waitset_at E h q ws aws w'"
  by (simp add: acted_def waitset_at_def)

text \<open>
  C6. Any sequence of sets and resets of events of a wait set and of wakes of the set: each
  event ends with the flag that the last set or reset of it gives, the wait set is as it was,
  and one handle is written to its pipe for every set and the null handle for every wake, in the
  order of the calls, and nothing to any other descriptor.
\<close>

theorem others_announce:
  assumes set: "events_in E hs P h" and ev: "\<forall>g\<in>set hs. event_at E g (P g) (ev g) w" and ws: "waitset_at E h q ws aws w"
    and on: "\<forall>op\<in>set ops. on_set hs op"
  shows "yields (run_ops (other_step E h) ops w) (\<lambda>w'.
    (\<forall>g\<in>set hs. event_at E g (P g) (fold apply_op ops ev g) w') \<and> waitset_at E h q ws aws w' \<and>
    (\<forall>d. written (calls w') d = written (calls w) d @ (if d = pipe_write aws then concat (map announces ops) else [])))"
  using ev ws on
proof (induction ops arbitrary: ev w)
  case Nil
  then show ?case by (simp add: wp)
next
  case (Cons op ops)
  have "on_set hs op" using Cons.prems(3) by simp
  from other_acts [OF set Cons.prems(1,2) this] obtain v
    where v: "other_step E h op w = Some v" "acted E hs P aws (apply_op op ev) (announces op) w v"
    by (rule yieldsE)
  have "\<forall>g\<in>set hs. event_at E g (P g) (apply_op op ev g) v" using v(2) by (simp add: acted_def)
  from Cons.IH [OF this acted_waitset [OF v(2) Cons.prems(2)]] Cons.prems(3)
  show ?case using v by (auto simp: wp acted_def elim!: yields_mono)
qed

section \<open>The waiting thread among the others\<close>

text \<open>
  What the others do at a point of the history; OpenFiles' core with other threads about: they act
  before and after each call of the waiting thread that looks at an event or changes it.
\<close>

definition others_act :: "env \<Rightarrow> handle \<Rightarrow> (history \<Rightarrow> other_op list) \<Rightarrow> world \<Rightarrow> world option" where
  "others_act E h sched w = run_ops (other_step E h) (sched (calls w)) w"

definition among_others :: "env \<Rightarrow> handle \<Rightarrow> (history \<Rightarrow> other_op list) \<Rightarrow> env" where
  "among_others E h sched = (linked E)\<lparr>
     core_event_test := (\<lambda>g w. do {
       w \<leftarrow> others_act E h sched w; (b, w) \<leftarrow> ofc_event_test_impl E g w; w \<leftarrow> others_act E h sched w; Some (b, w) }),
     core_event_get_type := (\<lambda>g w. do {
       w \<leftarrow> others_act E h sched w; (t, w) \<leftarrow> ofc_event_get_type_impl E g w; w \<leftarrow> others_act E h sched w; Some (t, w) }),
     core_event_reset := (\<lambda>g w. do {
       w \<leftarrow> others_act E h sched w; w \<leftarrow> ofc_event_reset_impl E g w; others_act E h sched w })\<rparr>"

lemma among_others_simps [simp]: "respond (among_others E h sched) = respond E"
  "MAX_SCHED_WAIT (among_others E h sched) = MAX_SCHED_WAIT E" "queue_order (among_others E h sched) = queue_order E"
  by (simp_all add: among_others_def linked_def)

text \<open>With no others the core just forwards.\<close>

lemma among_nobody: "among_others E h (\<lambda>_. []) = linked E"
proof -
  have act: "others_act E h (\<lambda>_. []) = Some" by (simp add: fun_eq_iff others_act_def)
  have bind: "Option.bind m (\<lambda>(a, b). Some (a, b)) = m" for m :: "('a \<times> 'b) option" by (cases m) simp_all
  show ?thesis
    by (simp add: among_others_def act linked_def bind)
qed

text \<open>
  A set of live events, and what may have happened to it and to its pipe between two points of
  the waiting thread: it has read nothing, handles were added to the pipe, and an event that is
  signalled now and was not before was announced, unless the pipe was full. \<open>calm\<close> says that the
  others have done nothing.
\<close>

definition live_set :: "env \<Rightarrow> handle list \<Rightarrow> (handle \<Rightarrow> ptr) \<Rightarrow> handle \<Rightarrow> ptr \<Rightarrow> wait_set \<Rightarrow> android_wait_set \<Rightarrow> world \<Rightarrow> bool" where
  "live_set E hs P h q ws aws w \<longleftrightarrow> events_in E hs P h \<and> pipe_law E aws \<and>
     (\<forall>g\<in>set hs. \<exists>e. event_at E g (P g) e w) \<and> waitset_at E h q ws aws w"

definition raised :: "(handle \<Rightarrow> ptr) \<Rightarrow> handle \<Rightarrow> world \<Rightarrow> bool" where
  "raised P g w \<longleftrightarrow> (\<exists>e. ev_mem w (P g) = Some e \<and> signalled e)"

definition others_did :: "bool \<Rightarrow> handle list \<Rightarrow> (handle \<Rightarrow> ptr) \<Rightarrow> android_wait_set \<Rightarrow> world \<Rightarrow> world \<Rightarrow> bool" where
  "others_did calm hs P aws w w' \<longleftrightarrow> (let a = pipe_of aws (calls w); b = pipe_of aws (calls w') in
     ws_mem w' = ws_mem w \<and> aws_mem w' = aws_mem w \<and> (\<forall>g. dead (calls w') g = dead (calls w) g) \<and>
     (\<forall>g\<in>set hs. ev_mem w (P g) \<noteq> None \<longrightarrow> ev_mem w' (P g) \<noteq> None) \<and>
     reads (calls w') (pipe_read aws) = reads (calls w) (pipe_read aws) \<and>
     taken b = taken a \<and> polled b = polled a \<and> refused a \<le> refused b \<and> (calm \<longrightarrow> b = a) \<and>
     (\<exists>new. content b = content a @ new \<and>
       (\<forall>g\<in>set hs. raised P g w' \<and> \<not> raised P g w \<longrightarrow> g \<in> set new \<or> refused a < refused b \<and> content b \<noteq> [])))"

lemma others_didD:
  assumes "others_did calm hs P aws w w'"
  shows "reads (calls w') (pipe_read aws) = reads (calls w) (pipe_read aws)"
    and "taken (pipe_of aws (calls w')) = taken (pipe_of aws (calls w))"
    and "polled (pipe_of aws (calls w')) = polled (pipe_of aws (calls w))"
    and "refused (pipe_of aws (calls w)) \<le> refused (pipe_of aws (calls w'))"
    and "calm \<Longrightarrow> pipe_of aws (calls w') = pipe_of aws (calls w)"
    and "set (content (pipe_of aws (calls w))) \<subseteq> set (content (pipe_of aws (calls w')))"
    and "g \<in> set hs \<Longrightarrow> raised P g w' \<Longrightarrow> raised P g w \<or> content (pipe_of aws (calls w')) \<noteq> [] \<and>
      (g \<in> set (content (pipe_of aws (calls w'))) \<or> refused (pipe_of aws (calls w)) < refused (pipe_of aws (calls w')))"
    and "live_set E hs P h q ws aws w \<Longrightarrow> live_set E hs P h q ws aws w'"
  using assms
  by (auto simp: others_did_def Let_def live_set_def event_at_def waitset_at_def)

lemma others_did_refl: "others_did calm hs P aws w w"
  by (simp add: others_did_def Let_def)

lemma others_did_trans:
  assumes 1: "others_did calm hs P aws w w1" and 2: "others_did calm hs P aws w1 w2"
  shows "others_did calm hs P aws w w2"
proof -
  let ?a = "pipe_of aws (calls w)" and ?b = "pipe_of aws (calls w1)" and ?c = "pipe_of aws (calls w2)"
  obtain n1 where n1: "content ?b = content ?a @ n1"
    "\<And>g. g \<in> set hs \<Longrightarrow> raised P g w1 \<Longrightarrow> \<not> raised P g w \<Longrightarrow> g \<in> set n1 \<or> refused ?a < refused ?b \<and> content ?b \<noteq> []"
    using 1 by (auto simp: others_did_def Let_def)
  obtain n2 where n2: "content ?c = content ?b @ n2"
    "\<And>g. g \<in> set hs \<Longrightarrow> raised P g w2 \<Longrightarrow> \<not> raised P g w1 \<Longrightarrow> g \<in> set n2 \<or> refused ?b < refused ?c \<and> content ?c \<noteq> []"
    using 2 by (auto simp: others_did_def Let_def)
  have le: "refused ?a \<le> refused ?b" "refused ?b \<le> refused ?c" using others_didD(4) [OF 1] others_didD(4) [OF 2] .
  have "g \<in> set (n1 @ n2) \<or> refused ?a < refused ?c \<and> content ?c \<noteq> []"
    if "g \<in> set hs" "raised P g w2" "\<not> raised P g w" for g
    using n1 n2 le that by (cases "raised P g w1") fastforce+
  moreover have "content ?c = content ?a @ n1 @ n2" using n1(1) n2(1) by simp
  ultimately have "\<exists>new. content ?c = content ?a @ new \<and> (\<forall>g\<in>set hs. raised P g w2 \<and> \<not> raised P g w \<longrightarrow>
      g \<in> set new \<or> refused ?a < refused ?c \<and> content ?c \<noteq> [])"
    by blast
  with 1 2 le show ?thesis by (auto simp: others_did_def Let_def)
qed

text \<open>Calls that the pipe does not notice.\<close>

lemma others_did_same:
  assumes "same_mem w w'" and "\<And>g. dead (calls w') g = dead (calls w) g"
    and "reads (calls w') (pipe_read aws) = reads (calls w) (pipe_read aws)"
    and "pipe_of aws (calls w') = pipe_of aws (calls w)"
  shows "others_did calm hs P aws w w'"
  using assms by (auto simp: others_did_def Let_def raised_def same_memD [OF assms(1)])

lemma acted_did:
  assumes "acted E hs P aws (apply_op op ev) (announces op) w w'" and "live_set E hs P h q ws aws w"
    and "\<forall>g\<in>set hs. event_at E g (P g) (ev g) w" and "on_set hs op"
  shows "others_did False hs P aws w w'"
proof -
  let ?a = "pipe_of aws (calls w)" and ?b = "pipe_of aws (calls w')"
  have law: "pipe_law E aws" using assms(2) by (simp add: live_set_def)
  have off: "offered (announces op) ?a ?b" using assms(1) law by (simp add: acted_def)
  have ev: "ev_mem w (P g) = Some (ev g)" "ev_mem w' (P g) = Some (apply_op op ev g)" if "g \<in> set hs" for g
    using assms(1,3) that by (auto simp: acted_def event_at_def)
  have up: "g \<in> set (announces op)" if "g \<in> set hs" "raised P g w'" "\<not> raised P g w" for g
    using that ev [OF that(1)] by (cases op) (auto simp: raised_def split: if_splits)
  have "\<exists>new. content ?b = content ?a @ new \<and> (\<forall>g\<in>set hs. raised P g w' \<and> \<not> raised P g w \<longrightarrow>
      g \<in> set new \<or> refused ?a < refused ?b \<and> content ?b \<noteq> [])"
    using off unfolding offered_def
  proof (elim disjE)
    assume "?b = ?a\<lparr>content := content ?a @ announces op\<rparr>"
    with up show ?thesis by (intro exI [of _ "announces op"]) auto
  next
    assume "announces op \<noteq> [] \<and> content ?a \<noteq> [] \<and> ?b = ?a\<lparr>refused := refused ?a + 1\<rparr>"
    then show ?thesis by (intro exI [of _ "[]"]) simp
  qed
  then show ?thesis
    using assms(1) off ev by (auto simp: others_did_def Let_def acted_def offered_def)
qed

lemma others_run:
  "live_set E hs P h q ws aws w \<Longrightarrow> \<forall>op\<in>set ops. on_set hs op \<Longrightarrow> (calm \<Longrightarrow> ops = []) \<Longrightarrow>
   yields (run_ops (other_step E h) ops w) (others_did calm hs P aws w)"
proof (induction ops arbitrary: w)
  case Nil
  then show ?case by (simp add: wp others_did_refl)
next
  case (Cons op ops)
  have calm: "\<not> calm" using Cons.prems(3) by auto
  have set: "events_in E hs P h" and ws: "waitset_at E h q ws aws w" using Cons.prems(1) by (simp_all add: live_set_def)
  let ?ev = "\<lambda>g. the (ev_mem w (P g))"
  have ev: "\<forall>g\<in>set hs. event_at E g (P g) (?ev g) w"
    using Cons.prems(1) by (auto simp: live_set_def event_at_def)
  have on: "on_set hs op" using Cons.prems(2) by simp
  obtain v where v: "other_step E h op w = Some v" "acted E hs P aws (apply_op op ?ev) (announces op) w v"
    using other_acts [OF set ev ws on] by (rule yieldsE)
  have did: "others_did False hs P aws w v" by (rule acted_did [OF v(2) Cons.prems(1) ev on])
  have "yields (run_ops (other_step E h) ops v) (others_did calm hs P aws v)"
    using Cons.prems calm by (intro Cons.IH others_didD(8) [OF did]) simp_all
  then show ?case
    using v(1) did calm by (auto simp: wp elim!: yields_mono intro: others_did_trans)
qed

section \<open>One look at an event\<close>

text \<open>
  A schedule: the others keep to the events of the set, and if the waiting thread is calm they do
  nothing while it has read the pipe \<open>n\<close> times.
\<close>

definition scheduled :: "bool \<Rightarrow> nat \<Rightarrow> handle list \<Rightarrow> android_wait_set \<Rightarrow> (history \<Rightarrow> other_op list) \<Rightarrow> bool" where
  "scheduled calm n hs aws sched \<longleftrightarrow> (\<forall>hist. (\<forall>op\<in>set (sched hist). on_set hs op) \<and>
     (calm \<and> reads hist (pipe_read aws) = n \<longrightarrow> sched hist = []))"

lemma others_act_did:
  assumes "live_set E hs P h q ws aws w" and "scheduled calm n hs aws sched" and "reads (calls w) (pipe_read aws) = n"
  shows "yields (others_act E h sched w) (others_did calm hs P aws w)"
  unfolding others_act_def using assms(2,3) by (intro others_run [OF assms(1)]) (auto simp: scheduled_def)

lemma event_calls_unheard:
  "returns (ofc_event_test_impl E g w) (\<lambda>(b, w'). reads (calls w') d = reads (calls w) d \<and> pipe_of aws (calls w') = pipe_of aws (calls w))"
  "returns (ofc_event_get_type_impl E g w) (\<lambda>(t, w'). reads (calls w') d = reads (calls w) d \<and> pipe_of aws (calls w') = pipe_of aws (calls w))"
  "returns (ofc_event_reset_impl E g w) (\<lambda>w'. reads (calls w') d = reads (calls w) d \<and> pipe_of aws (calls w') = pipe_of aws (calls w))"
  by (auto simp: event_defs Let_def wp split: call_splits)

lemma frame_did:
  assumes "event_frame (P g) e' w w'" and "ev_mem w (P g) = Some e" and "signalled e' \<Longrightarrow> signalled e"
    and "reads (calls w') (pipe_read aws) = reads (calls w) (pipe_read aws)" and "pipe_of aws (calls w') = pipe_of aws (calls w)"
  shows "others_did calm hs P aws w w'"
  using event_frameD [OF assms(1)] assms(2-5) by (auto simp: others_did_def Let_def raised_def)

lemma own_calls:
  assumes "live_set E hs P h q ws aws w" and "g \<in> set hs"
  shows "yields (ofc_event_test_impl E g w) (\<lambda>(b, w'). others_did calm hs P aws w w' \<and> b = raised P g w')"
    and "yields (ofc_event_get_type_impl E g w) (\<lambda>(t, w'). others_did calm hs P aws w w')"
    and "yields (ofc_event_reset_impl E g w) (others_did calm hs P aws w)"
proof -
  obtain e where at: "event_at E g (P g) e w" using assms by (auto simp: live_set_def)
  note em = event_atD(3) [OF at]
  show "yields (ofc_event_test_impl E g w) (\<lambda>(b, w'). others_did calm hs P aws w w' \<and> b = raised P g w')"
    by (rule yields_mono [OF yields_and_returns [OF event_test_live [OF at]
          event_calls_unheard(1) [where d = "pipe_read aws" and aws = aws]]])
       (auto simp: raised_def event_frameD(1) intro: frame_did [where P = P and g = g, OF _ em])
  show "yields (ofc_event_get_type_impl E g w) (\<lambda>(t, w'). others_did calm hs P aws w w')"
    by (rule yields_mono [OF yields_and_returns [OF event_get_type_live [OF at]
          event_calls_unheard(2) [where d = "pipe_read aws" and aws = aws]]])
       (auto intro: frame_did [where P = P and g = g, OF _ em])
  show "yields (ofc_event_reset_impl E g w) (others_did calm hs P aws w)"
    by (rule yields_mono [OF yields_and_returns [OF event_reset_live [OF at]
          event_calls_unheard(3) [where d = "pipe_read aws" and aws = aws]]])
       (auto intro: frame_did [where P = P and g = g, OF _ em])
qed

text \<open>The others, a call of the waiting thread, the others.\<close>

lemma around:
  assumes live: "live_set E hs P h q ws aws w" and ok: "scheduled calm n hs aws sched"
    and n: "reads (calls w) (pipe_read aws) = n"
    and own: "\<And>v. live_set E hs P h q ws aws v \<Longrightarrow> yields (f v) (\<lambda>(x, v'). others_did calm hs P aws v v' \<and> Q x v')"
  shows "yields (do { w \<leftarrow> others_act E h sched w; (x, w) \<leftarrow> f w; w \<leftarrow> others_act E h sched w; Some (x, w) })
    (\<lambda>(x, w'). others_did calm hs P aws w w' \<and> (\<exists>v. Q x v \<and> others_did calm hs P aws w v \<and> others_did calm hs P aws v w'))"
proof -
  obtain w1 where 1: "others_act E h sched w = Some w1" "others_did calm hs P aws w w1"
    using others_act_did [OF live ok n] by (rule yieldsE)
  obtain x w2 where 2: "f w1 = Some (x, w2)" "others_did calm hs P aws w1 w2" "Q x w2"
    using own [OF others_didD(8) [OF 1(2) live]] by (auto elim!: yieldsE)
  note d2 = others_did_trans [OF 1(2) 2(2)]
  obtain w3 where 3: "others_act E h sched w2 = Some w3" "others_did calm hs P aws w2 w3"
    using others_act_did [OF others_didD(8) [OF d2 live] ok] n others_didD(1) [OF d2] by (auto elim!: yieldsE)
  show ?thesis
    using 1(1) 2(1,3) 3 d2 others_did_trans [OF d2 3(2)] by (auto simp: wp)
qed

lemma around_test:
  assumes "live_set E hs P h q ws aws w" and "scheduled calm n hs aws sched"
    and "reads (calls w) (pipe_read aws) = n" and g: "g \<in> set hs"
  shows "yields (core_event_test (among_others E h sched) g w) (\<lambda>(b, w'). others_did calm hs P aws w w' \<and>
    (\<exists>v. b = raised P g v \<and> others_did calm hs P aws w v \<and> others_did calm hs P aws v w'))"
  using around [OF assms(1-3), of "ofc_event_test_impl E g" "\<lambda>b v. b = raised P g v"] own_calls(1) [OF _ g]
  by (auto simp: among_others_def elim!: yields_mono)

lemma around_type:
  assumes "live_set E hs P h q ws aws w" and "scheduled calm n hs aws sched"
    and "reads (calls w) (pipe_read aws) = n" and g: "g \<in> set hs"
  shows "yields (core_event_get_type (among_others E h sched) g w) (\<lambda>(t, w'). others_did calm hs P aws w w')"
  using around [OF assms(1-3), of "ofc_event_get_type_impl E g" "\<lambda>_ _. True"] own_calls(2) [OF _ g]
  by (auto simp: among_others_def elim!: yields_mono)

lemma around_reset:
  assumes live: "live_set E hs P h q ws aws w" and "scheduled calm n hs aws sched"
    and "reads (calls w) (pipe_read aws) = n" and g: "g \<in> set hs"
  shows "yields (core_event_reset (among_others E h sched) g w) (others_did calm hs P aws w)"
proof -
  have "yields (do { w \<leftarrow> others_act E h sched w; (x, w) \<leftarrow> map_option (Pair ()) (ofc_event_reset_impl E g w);
      w \<leftarrow> others_act E h sched w; Some (x, w) }) (\<lambda>(x, w'). others_did calm hs P aws w w')"
    using around [OF assms(1-3), of "\<lambda>w. map_option (Pair ()) (ofc_event_reset_impl E g w)" "\<lambda>_ _. True"] own_calls(3) [OF _ g]
    by (auto simp: yields_def elim!: yields_mono)
  then show ?thesis by (auto simp: among_others_def yields_def bind_eq_Some_conv)
qed

text \<open>
  What a look at an event that is not signalled leaves behind: if it is signalled now, it was set
  since, so it is in the pipe, or a write has been refused; and the pipe is not empty.
\<close>

definition heard :: "nat \<Rightarrow> handle set \<Rightarrow> (handle \<Rightarrow> ptr) \<Rightarrow> android_wait_set \<Rightarrow> world \<Rightarrow> bool" where
  "heard k G P aws w \<longleftrightarrow> k \<le> refused (pipe_of aws (calls w)) \<and> (\<forall>g\<in>G. raised P g w \<longrightarrow>
     g \<in> set (content (pipe_of aws (calls w))) \<or> k < refused (pipe_of aws (calls w)))"

definition audible :: "handle set \<Rightarrow> (handle \<Rightarrow> ptr) \<Rightarrow> android_wait_set \<Rightarrow> world \<Rightarrow> bool" where
  "audible G P aws w \<longleftrightarrow> (\<forall>g\<in>G. raised P g w \<longrightarrow> content (pipe_of aws (calls w)) \<noteq> [])"

lemma heard_did:
  assumes "heard k G P aws w" and did: "others_did calm hs P aws w w'" and "G \<subseteq> set hs"
  shows "heard k G P aws w'"
  unfolding heard_def
proof (intro conjI ballI impI)
  show "k \<le> refused (pipe_of aws (calls w'))" using assms(1) others_didD(4) [OF did] by (simp add: heard_def)
  fix g
  assume "g \<in> G" "raised P g w'"
  then show "g \<in> set (content (pipe_of aws (calls w'))) \<or> k < refused (pipe_of aws (calls w'))"
    using assms(1,3) others_didD(4,6) [OF did] others_didD(7) [OF did, of g] unfolding heard_def by fastforce
qed

lemma audible_did:
  assumes "audible G P aws w" and did: "others_did calm hs P aws w w'" and "G \<subseteq> set hs"
  shows "audible G P aws w'"
  using assms(1,3) others_didD(6) [OF did] others_didD(7) [OF did] unfolding audible_def by (metis set_empty subset_empty subsetD)

lemma down_heard:
  assumes "\<not> raised P g v" and "others_did calm hs P aws v w" and "g \<in> set hs" and "k \<le> refused (pipe_of aws (calls v))"
  shows "heard k {g} P aws w" "audible {g} P aws w"
  using heard_did [of k "{g}" P aws v calm hs w] audible_did [of "{g}" P aws v calm hs w] assms
  by (simp_all add: heard_def audible_def)

lemma heard_Un: "heard k A P aws w \<Longrightarrow> heard k B P aws w \<Longrightarrow> heard k (A \<union> B) P aws w"
  "audible A P aws w \<Longrightarrow> audible B P aws w \<Longrightarrow> audible (A \<union> B) P aws w"
  by (auto simp: heard_def audible_def)

lemma claim_among:
  assumes live: "live_set E hs P h q ws aws w" and ok: "scheduled calm n hs aws sched"
    and n: "reads (calls w) (pipe_read aws) = n" and g: "g \<in> set hs" and k: "k \<le> refused (pipe_of aws (calls w))"
  shows "yields (claim_event (core_event_test (among_others E h sched)) (core_event_get_type (among_others E h sched))
      (core_event_reset (among_others E h sched)) g w)
    (\<lambda>(b, w'). others_did calm hs P aws w w' \<and>
      (if b then \<exists>v. raised P g v \<and> others_did calm hs P aws w v else heard k {g} P aws w' \<and> audible {g} P aws w'))"
proof -
  let ?H = "among_others E h sched"
  obtain b w1 v where 1: "core_event_test ?H g w = Some (b, w1)" "others_did calm hs P aws w w1"
    and v: "b = raised P g v" "others_did calm hs P aws w v" "others_did calm hs P aws v w1"
    using around_test [OF live ok n g] by (auto elim!: yieldsE)
  show ?thesis
  proof (cases b)
    case False
    then have "\<not> raised P g v" using v(1) by simp
    moreover have "k \<le> refused (pipe_of aws (calls v))" using k others_didD(4) [OF v(2)] by simp
    ultimately have "heard k {g} P aws w1" "audible {g} P aws w1" using down_heard [OF _ v(3) g] by blast+
    then show ?thesis using 1(1,2) False by (simp add: claim_event_def wp)
  next
    case True
    have live1: "live_set E hs P h q ws aws w1" by (rule others_didD(8) [OF 1(2) live])
    have n1: "reads (calls w1) (pipe_read aws) = n" using n others_didD(1) [OF 1(2)] by simp
    obtain t w2 where 2: "core_event_get_type ?H g w1 = Some (t, w2)" "others_did calm hs P aws w1 w2"
      using around_type [OF live1 ok n1 g] by (auto elim!: yieldsE)
    note d2 = others_did_trans [OF 1(2) 2(2)]
    have n2: "reads (calls w2) (pipe_read aws) = n" using n others_didD(1) [OF d2] by simp
    obtain w3 where 3: "core_event_reset ?H g w2 = Some w3" "others_did calm hs P aws w2 w3"
      using around_reset [OF others_didD(8) [OF d2 live] ok n2 g] by (rule yieldsE)
    show ?thesis
      using 1(1) 2(1) 3 True d2 others_did_trans [OF d2 3(2)] v(1,2) by (auto simp: claim_event_def wp)
  qed
qed

section \<open>The wait up to its poll\<close>

lemma scan_among:
  assumes ok: "scheduled calm n hs aws sched" and m: "\<And>hist. r_addr (respond E hist (Pkg Malloc)) \<noteq> OFC_NULL"
  shows "live_set E hs P h q ws aws w \<Longrightarrow> reads (calls w) (pipe_read aws) = n \<Longrightarrow> set gs \<subseteq> set hs \<Longrightarrow> G \<subseteq> set hs \<Longrightarrow>
    triggered_event s = OFC_HANDLE_NULL \<Longrightarrow> heard k G P aws w \<Longrightarrow> audible G P aws w \<Longrightarrow>
    yields (scan_handles (among_others E h sched) gs s w) (\<lambda>(s', w'). others_did calm hs P aws w w' \<and>
      (if triggered_event s' = OFC_HANDLE_NULL
       then (\<exists>ps. s' = s\<lparr>eventQueue := eventQueue s @ self_elements gs, element_ptrs := ps\<rparr>) \<and>
         heard k (G \<union> set gs) P aws w' \<and> audible (G \<union> set gs) P aws w'
       else triggered_event s' \<in> set gs \<and> (\<exists>v. raised P (triggered_event s') v \<and> others_did calm hs P aws w v)))"
proof (induction gs arbitrary: G s w)
  case Nil
  then show ?case
    by (simp add: wp others_did_refl self_elements_def) (rule exI [of _ "element_ptrs s"], simp)
next
  case (Cons g gs)
  let ?H = "among_others E h sched" and ?c = "Pkg (HandleGetType g)"
  let ?w = "logged ?c (respond E (calls w) ?c) w"
  have set: "events_in E hs P h" using Cons.prems(1) by (simp add: live_set_def)
  have g: "g \<in> set hs" using Cons.prems(3) by simp
  note nn = events_inD(3) [OF set g]
  have d0: "others_did calm hs P aws w ?w" by (rule others_did_same) simp_all
  have live0: "live_set E hs P h q ws aws ?w" by (rule others_didD(8) [OF d0 Cons.prems(1)])
  have n0: "reads (calls ?w) (pipe_read aws) = n" using Cons.prems(2) by simp
  have k0: "k \<le> refused (pipe_of aws (calls ?w))" using Cons.prems(6) by (simp add: heard_def)
  obtain b w1 where 1: "claim_event (core_event_test ?H) (core_event_get_type ?H) (core_event_reset ?H) g ?w = Some (b, w1)"
    "others_did calm hs P aws ?w w1"
    "if b then \<exists>v. raised P g v \<and> others_did calm hs P aws ?w v else heard k {g} P aws w1 \<and> audible {g} P aws w1"
    using claim_among [OF live0 ok n0 g k0] by (auto elim!: yieldsE)
  note d1 = others_did_trans [OF d0 1(2)]
  show ?case
  proof (cases b)
    case True
    with 1(3) obtain v where "raised P g v" "others_did calm hs P aws w v"
      using others_did_trans [OF d0] by auto
    then show ?thesis
      using True 1(1) d1 nn Cons.prems(5)
      by (auto simp: wp scan_handle_def scan_switch_def call_def Let_def events_inD(4) [OF set g] scan_handles_stop)
  next
    case False
    let ?a = "Pkg Malloc"
    let ?w2 = "logged ?a (respond E (calls w1) ?a) w1"
    let ?s = "s\<lparr>eventQueue := eventQueue s @ [\<lparr>hEvent = g, hAssoc = g\<rparr>],
      element_ptrs := element_ptrs s @ [r_addr (respond E (calls w1) ?a)]\<rparr>"
    have step: "scan_handle ?H g s w = Some (?s, ?w2)"
      using False 1(1) m
      by (simp add: scan_handle_def scan_switch_def enqueue_element_def call_addr_def call_def Let_def events_inD(4) [OF set g])
    have d2: "others_did calm hs P aws w1 ?w2" by (rule others_did_same) simp_all
    note d = others_did_trans [OF d1 d2]
    have "heard k (G \<union> {g}) P aws w1" "audible (G \<union> {g}) P aws w1"
      using 1(3) False heard_did [OF Cons.prems(6) d1 Cons.prems(4)] audible_did [OF Cons.prems(7) d1 Cons.prems(4)]
      by (simp_all add: heard_Un del: Un_insert_right)
    moreover have G: "G \<union> {g} \<subseteq> set hs" using g Cons.prems(4) by simp
    ultimately have "heard k (G \<union> {g}) P aws ?w2" "audible (G \<union> {g}) P aws ?w2"
      using heard_did [OF _ d2] audible_did [OF _ d2] by blast+
    moreover have "reads (calls ?w2) (pipe_read aws) = n" using n0 others_didD(1) [OF d] Cons.prems(2) by simp
    moreover have "set gs \<subseteq> set hs" "triggered_event ?s = OFC_HANDLE_NULL" using Cons.prems(3,5) by simp_all
    ultimately have "yields (scan_handles ?H gs ?s ?w2) (\<lambda>(s', w'). others_did calm hs P aws ?w2 w' \<and>
      (if triggered_event s' = OFC_HANDLE_NULL
       then (\<exists>ps. s' = ?s\<lparr>eventQueue := eventQueue ?s @ self_elements gs, element_ptrs := ps\<rparr>) \<and>
         heard k ((G \<union> {g}) \<union> set gs) P aws w' \<and> audible ((G \<union> {g}) \<union> set gs) P aws w'
       else triggered_event s' \<in> set gs \<and> (\<exists>v. raised P (triggered_event s') v \<and> others_did calm hs P aws ?w2 v)))"
      using G by (intro Cons.IH others_didD(8) [OF d Cons.prems(1)])
    then have "yields (scan_handles ?H gs ?s ?w2) (\<lambda>(s', w'). others_did calm hs P aws w w' \<and>
      (if triggered_event s' = OFC_HANDLE_NULL
       then (\<exists>ps. s' = s\<lparr>eventQueue := eventQueue s @ self_elements (g # gs), element_ptrs := ps\<rparr>) \<and>
         heard k (G \<union> set (g # gs)) P aws w' \<and> audible (G \<union> set (g # gs)) P aws w'
       else triggered_event s' \<in> set (g # gs) \<and> (\<exists>v. raised P (triggered_event s') v \<and> others_did calm hs P aws w v)))"
      using others_did_trans [OF d] by (elim yields_mono) (auto simp: self_elements_def split: if_splits)
    with step nn Cons.prems(5) show ?thesis by (simp add: wp)
  qed
qed

text \<open>The purge empties the pipe.\<close>

lemma purge_empties:
  assumes law: "pipe_law E aws"
  shows "yields (purge E (pipe_read aws) w) (\<lambda>w'. same_mem w w' \<and> (\<forall>g. dead (calls w') g = dead (calls w) g) \<and>
    content (pipe_of aws (calls w')) = [] \<and> refused (pipe_of aws (calls w')) = refused (pipe_of aws (calls w)) \<and>
    polled (pipe_of aws (calls w')) = polled (pipe_of aws (calls w)))"
proof (induction "content (pipe_of aws (calls w))" arbitrary: w)
  case Nil
  then have "r_ret (respond E (calls w) (Sys (SysRead (pipe_read aws)))) = -1"
    by (intro pipe_read_law(1) [OF law]) simp
  then show ?case
    by (subst purge.simps) (simp add: call_ret_def call_def Let_def wp flip: Nil)
next
  case (Cons g gs)
  let ?c = "Sys (SysRead (pipe_read aws))"
  let ?r = "respond E (calls w) ?c"
  have r: "r_ret ?r = 8"
    by (rule pipe_read_law(2) [OF law]) (simp flip: Cons.hyps(2))
  have "gs = content (pipe_of aws (calls (logged ?c ?r w)))" using r by (simp add: Let_def flip: Cons.hyps(2))
  from Cons.hyps(1) [OF this] r show ?case
    by (subst purge.simps) (auto simp: call_ret_def call_def Let_def elim!: yields_mono)
qed

lemma pipe_law_among: "pipe_law (among_others E h sched) aws = pipe_law E aws"
  by (simp add: pipe_law_def)

lemma queue_fifo_among: "queue_fifo (among_others E h sched) = queue_fifo E"
  by (simp add: queue_fifo_def)

lemma free_scan_unheard: "pipe_of aws (calls (free_scan E queue s w)) = pipe_of aws (calls w)"
proof -
  have "pipe_of aws (calls (fold (\<lambda>p. call_void E (Pkg (Free p))) ps v)) = pipe_of aws (calls v)" for ps v
    by (induction ps arbitrary: v) (simp_all add: call_void_def call_def Let_def)
  then show ?thesis by (simp add: free_scan_def call_void_def call_def Let_def)
qed

text \<open>What comes after the poll, and any number of frees and unlocks, leave the events and the pipe alone.\<close>

definition quiet :: "android_wait_set \<Rightarrow> (world \<Rightarrow> world) \<Rightarrow> bool" where
  "quiet aws f \<longleftrightarrow> (\<forall>w. same_mem w (f w) \<and> pipe_of aws (calls (f w)) = pipe_of aws (calls w))"

lemma quiet_end: "queue_fifo E \<Longrightarrow> quiet aws (\<lambda>w. ofc_handle_unlock E h (free_scan E queue s w))"
  unfolding quiet_def
  using free_scan_blocks(4) [of E _ queue s] free_scan_unheard [of aws E queue s]
  by (simp add: call_void_def call_def Let_def)

lemma wait_reaches_scan:
  assumes law: "pipe_law E aws" and ws: "waitset_at E h q ws aws w"
    and m: "\<And>hist. r_addr (respond E hist (Pkg Malloc)) \<noteq> OFC_NULL"
    and items: "\<And>hist. r_items (respond E hist (Core (QueueItems (hHandleQueue ws)))) = hs"
  obtains queue al ol v where "same_mem w v" "\<And>g. dead (calls v) g = dead (calls w) g"
    and "content (pipe_of aws (calls v)) = []" "refused (pipe_of aws (calls v)) = refused (pipe_of aws (calls w))"
    and "polled (pipe_of aws (calls v)) = polled (pipe_of aws (calls w))"
    and "ofc_waitset_wait_impl E others h w =
      map_option (\<lambda>(r, w2). (r, ofc_handle_unlock E h w2)) (scan_and_poll E others aws queue hs (scan_start E aws al ol) v)"
proof -
  define w1 where "w1 = snd (ofc_handle_lock E h w)"
  define w2 where "w2 = snd (call_addr E (Core QueueCreate) w1)"
  define w3 where "w3 = snd (call_addr E (Pkg Malloc) w2)"
  define w4 where "w4 = snd (call_addr E (Pkg Malloc) w3)"
  note defs = w1_def w2_def w3_def w4_def
  have w4: "same_mem w w4" "dead (calls w4) g = dead (calls w) g" "pipe_of aws (calls w4) = pipe_of aws (calls w)" for g
    by (simp_all add: defs call_addr_def call_def Let_def)
  obtain v where v: "purge E (pipe_read aws) w4 = Some v" "same_mem w4 v" "\<And>g. dead (calls v) g = dead (calls w4) g"
    "content (pipe_of aws (calls v)) = []" "refused (pipe_of aws (calls v)) = refused (pipe_of aws (calls w4))"
    "polled (pipe_of aws (calls v)) = polled (pipe_of aws (calls w4))"
    using purge_empties [OF law, of w4] by (auto elim!: yieldsE)
  let ?c = "Core (QueueItems (hHandleQueue ws))"
  let ?v = "logged ?c (respond E (calls v) ?c) v"
  have lk: "ofc_handle_lock E h w = (q, w1)" using waitset_at_lock [OF ws] by (simp add: w1_def)
  have c2: "call_addr E (Core QueueCreate) w1 = (fst (call_addr E (Core QueueCreate) w1), w2)" by (simp add: w2_def)
  have c3: "call_addr E (Pkg Malloc) w2 = (r_addr (respond E (calls w2) (Pkg Malloc)), w3)"
    by (simp add: w3_def call_addr_def call_def Let_def)
  have c4: "call_addr E (Pkg Malloc) w3 = (r_addr (respond E (calls w3) (Pkg Malloc)), w4)"
    by (simp add: w4_def call_addr_def call_def Let_def)
  have mem: "ws_mem w4 q = Some ws" "aws_mem w4 (ws_impl ws) = Some aws"
    using waitset_atD [OF ws] same_memD(3,4) [OF w4(1)] by simp_all
  have bind: "Option.bind m (\<lambda>(r, w2). Some (r, f w2)) = map_option (\<lambda>(r, w2). (r, f w2)) m" for m :: "handle result" and f
    by (cases m) auto
  have "ofc_waitset_wait_impl E others h w = map_option (\<lambda>(r, w2). (r, ofc_handle_unlock E h w2))
      (scan_and_poll E others aws (fst (call_addr E (Core QueueCreate) w1)) hs
        (scan_start E aws (r_addr (respond E (calls w2) (Pkg Malloc))) (r_addr (respond E (calls w3) (Pkg Malloc)))) ?v)"
    unfolding ofc_waitset_wait_impl_def lk Let_def prod.case
    by (subst c2, simp add: c3 c4 mem v(1) m waitset_atD(1) [OF ws] bind) (simp add: call_def Let_def items bind)
  moreover have "same_mem w ?v" using same_mem_trans [OF w4(1) v(2)] by simp
  ultimately show ?thesis using v(3-6) w4(2,3) by (intro that) simp_all
qed

section \<open>The walk through the pipe\<close>

text \<open>One round of \<open>PollEvent\<close>, with the rest of the walk as a parameter.\<close>

definition poll_round :: "(world \<Rightarrow> handle result) \<Rightarrow> env \<Rightarrow> int \<Rightarrow> event_element list \<Rightarrow> world \<Rightarrow> handle result" where
  "poll_round rest E d q w =
     (let (r, w) = call E (Sys (SysRead d)) w; h = r_addr r
      in if r_ret r \<noteq> 8 then Some (OFC_HANDLE_NULL, w)
         else if h = OFC_HANDLE_NULL then Some (OFC_HANDLE_NULL, w)
         else do {
           (triggered, w) \<leftarrow>
             (case find (\<lambda>e. hEvent e = h) (queue_walk E q) of
                None \<Rightarrow> Some (OFC_HANDLE_NULL, w)
              | Some e \<Rightarrow> do {
                  (b, w) \<leftarrow> claim_event (core_event_test E) (core_event_get_type E) (core_event_reset E) h w;
                  Some (if b then hAssoc e else OFC_HANDLE_NULL, w) });
           if triggered = OFC_HANDLE_NULL then rest w else Some (triggered, w)
         })"

lemma PollEvent_round: "PollEvent E d q w = poll_round (PollEvent E d q) E d q w"
  by (subst PollEvent.simps) (simp add: poll_round_def)

text \<open>
  What the walk ends with: an event of the set; or nothing, and then no event is signalled, or a
  wake was read, or a write has been refused.
\<close>

definition poll_ends :: "nat \<Rightarrow> handle list \<Rightarrow> (handle \<Rightarrow> ptr) \<Rightarrow> android_wait_set \<Rightarrow> handle \<Rightarrow> world \<Rightarrow> bool" where
  "poll_ends k hs P aws r w \<longleftrightarrow> r \<in> set hs \<or> r = OFC_HANDLE_NULL \<and>
     ((\<forall>g\<in>set hs. \<not> raised P g w) \<or> OFC_HANDLE_NULL \<in> set (taken (pipe_of aws (calls w))) \<or>
      k < refused (pipe_of aws (calls w)))"

lemma find_self: "find (\<lambda>e. hEvent e = g) (self_elements hs) = (if g \<in> set hs then Some \<lparr>hEvent = g, hAssoc = g\<rparr> else None)"
  by (induction hs) (auto simp: self_elements_def)

definition walking :: "env \<Rightarrow> handle list \<Rightarrow> (handle \<Rightarrow> ptr) \<Rightarrow> handle \<Rightarrow> ptr \<Rightarrow> wait_set \<Rightarrow> android_wait_set \<Rightarrow> nat \<Rightarrow> world \<Rightarrow> bool" where
  "walking E hs P h q ws aws k w \<longleftrightarrow> live_set E hs P h q ws aws w \<and> heard k (set hs) P aws w"

text \<open>
  One round ends the walk, or it has read one more handle and the walk goes on; if the others did
  nothing meanwhile, the pipe holds one handle less.
\<close>

lemma round_among:
  assumes fifo: "queue_fifo E" and walk: "walking E hs P h q ws aws k w"
    and ok: "scheduled calm (reads (calls w) (pipe_read aws) + 1) hs aws sched"
  shows "(\<exists>r w'. poll_round rest (among_others E h sched) (pipe_read aws) (self_elements hs) w = Some (r, w') \<and>
      poll_ends k hs P aws r w' \<and> polled (pipe_of aws (calls w')) = polled (pipe_of aws (calls w))) \<or>
    (\<exists>w'. poll_round rest (among_others E h sched) (pipe_read aws) (self_elements hs) w = rest w' \<and>
      walking E hs P h q ws aws k w' \<and> polled (pipe_of aws (calls w')) = polled (pipe_of aws (calls w)) \<and>
      reads (calls w') (pipe_read aws) = reads (calls w) (pipe_read aws) + 1 \<and>
      (calm \<longrightarrow> length (content (pipe_of aws (calls w'))) < length (content (pipe_of aws (calls w)))))"
proof -
  let ?H = "among_others E h sched" and ?c = "Sys (SysRead (pipe_read aws))" and ?p = "pipe_of aws (calls w)"
  let ?r = "respond E (calls w) ?c"
  let ?w = "logged ?c ?r w"
  have set: "events_in E hs P h" and law: "pipe_law E aws" using walk by (simp_all add: walking_def live_set_def)
  have walk_q: "queue_walk ?H xs = xs" for xs :: "event_element list"
    using fifo by (intro queue_walk_fifo) (simp add: queue_fifo_among)
  have up: "raised P g ?w = raised P g w" for g by (simp add: raised_def)
  have live0: "live_set E hs P h q ws aws ?w"
    using walk by (simp add: walking_def live_set_def event_at_def waitset_at_def)
  show ?thesis
  proof (cases "content ?p")
    case Nil
    then have r: "r_ret ?r = -1" by (rule pipe_read_law(1) [OF law])
    have "poll_ends k hs P aws OFC_HANDLE_NULL ?w"
      using walk Nil r by (auto simp: poll_ends_def walking_def heard_def up Let_def)
    then show ?thesis using r by (simp add: poll_round_def call_def Let_def)
  next
    case (Cons a rest')
    have r: "r_ret ?r = 8" "r_addr ?r = a" using pipe_read_law(2,3) [OF law Cons] by simp_all
    have p: "pipe_of aws (calls ?w) = ?p\<lparr>content := rest', taken := a # taken ?p\<rparr>" using r Cons by (simp add: Let_def)
    show ?thesis
    proof (cases "a = OFC_HANDLE_NULL")
      case True
      then have "poll_ends k hs P aws OFC_HANDLE_NULL ?w" using p by (simp add: poll_ends_def)
      then show ?thesis using r True p by (simp add: poll_round_def call_def Let_def)
    next
      case a: False
      have h0: "heard k (set hs - {a}) P aws ?w"
        using walk Cons unfolding walking_def heard_def p by (auto simp: raised_def)
      show ?thesis
      proof (cases "a \<in> set hs")
        case False
        then have "walking E hs P h q ws aws k ?w" using h0 live0 by (simp add: walking_def)
        moreover have "poll_round rest ?H (pipe_read aws) (self_elements hs) w = rest ?w"
          using r a False by (simp add: poll_round_def call_def Let_def walk_q find_self)
        ultimately show ?thesis using p Cons by auto
      next
        case True
        have n0: "reads (calls ?w) (pipe_read aws) = reads (calls w) (pipe_read aws) + 1" by simp
        have k0: "k \<le> refused (pipe_of aws (calls ?w))" using h0 by (simp add: heard_def)
        obtain b w1 where 1:
          "claim_event (core_event_test ?H) (core_event_get_type ?H) (core_event_reset ?H) a ?w = Some (b, w1)"
          "others_did calm hs P aws ?w w1"
          "if b then \<exists>v. raised P a v \<and> others_did calm hs P aws ?w v else heard k {a} P aws w1 \<and> audible {a} P aws w1"
          using claim_among [OF live0 ok n0 True k0] by (auto elim!: yieldsE)
        have pd: "polled (pipe_of aws (calls w1)) = polled ?p" using others_didD(3) [OF 1(2)] p by simp
        show ?thesis
        proof (cases b)
          case True
          with \<open>a \<in> set hs\<close> have "poll_ends k hs P aws a w1" by (simp add: poll_ends_def)
          then show ?thesis
            using 1(1) r a True \<open>a \<in> set hs\<close> pd by (simp add: poll_round_def call_def Let_def walk_q find_self)
        next
          case False
          have "heard k ((set hs - {a}) \<union> {a}) P aws w1"
            using heard_did [OF h0 1(2)] 1(3) False by (intro heard_Un) auto
          then have "heard k (set hs) P aws w1" using True by (simp add: insert_absorb)
          then have "walking E hs P h q ws aws k w1"
            using others_didD(8) [OF 1(2) live0] by (simp add: walking_def)
          moreover have "poll_round rest ?H (pipe_read aws) (self_elements hs) w = rest w1"
            using 1(1) r a True False by (simp add: poll_round_def call_def Let_def walk_q find_self)
          moreover have "calm \<Longrightarrow> length (content (pipe_of aws (calls w1))) < length (content ?p)"
            using others_didD(5) [OF 1(2)] p Cons by simp
          ultimately show ?thesis using pd others_didD(1) [OF 1(2)] n0 by auto
        qed
      qed
    qed
  qed
qed

text \<open>Whatever the others do, if the walk ends it ends well.\<close>

definition keeps_to :: "handle list \<Rightarrow> (history \<Rightarrow> other_op list) \<Rightarrow> bool" where
  "keeps_to hs sched \<longleftrightarrow> (\<forall>hist. \<forall>op\<in>set (sched hist). on_set hs op)"

lemma keeps_scheduled: "keeps_to hs sched \<Longrightarrow> scheduled False n hs aws sched"
  by (simp add: keeps_to_def scheduled_def)

lemma walk_among:
  assumes "queue_fifo E" and keeps: "keeps_to hs sched" and "walking E hs P h q ws aws k w"
  shows "returns (PollEvent (among_others E h sched) (pipe_read aws) (self_elements hs) w) (\<lambda>(r, w').
    poll_ends k hs P aws r w' \<and> polled (pipe_of aws (calls w')) = polled (pipe_of aws (calls w)))"
proof (rule returns_I)
  let ?G = "\<lambda>w x. poll_ends k hs P aws (fst x) (snd x) \<and>
    polled (pipe_of aws (calls (snd x))) = polled (pipe_of aws (calls w))"
  fix x
  assume "PollEvent (among_others E h sched) (pipe_read aws) (self_elements hs) w = Some x"
  then have "among_others E h sched = among_others E h sched \<longrightarrow> pipe_read aws = pipe_read aws \<longrightarrow>
      self_elements hs = self_elements hs \<longrightarrow> walking E hs P h q ws aws k w \<longrightarrow> ?G w x"
  proof (rule PollEvent.raw_induct [where P = "\<lambda>H d el w x. H = among_others E h sched \<longrightarrow> d = pipe_read aws \<longrightarrow>
      el = self_elements hs \<longrightarrow> walking E hs P h q ws aws k w \<longrightarrow> ?G w x", rotated], goal_cases)
    case (1 poll H d el w x)
    show ?case
    proof (intro impI)
      assume H: "H = among_others E h sched" "d = pipe_read aws" "el = self_elements hs"
        and walk: "walking E hs P h q ws aws k w"
      have x: "poll_round (poll H d el) H d el w = Some x"
        using 1(2) unfolding poll_round_def .
      from round_among [OF assms(1) walk keeps_scheduled [OF keeps], of "poll H d el"]
      show "?G w x"
        using x 1(1) unfolding H by fastforce
    qed
  qed
  then show "case x of (r, w') \<Rightarrow> poll_ends k hs P aws r w' \<and> polled (pipe_of aws (calls w')) = polled (pipe_of aws (calls w))"
    using assms(3) by (simp add: case_prod_beta)
qed

text \<open>The others act only until the pipe has been read \<open>N\<close> times: then the walk ends.\<close>

definition silent_from :: "nat \<Rightarrow> android_wait_set \<Rightarrow> (history \<Rightarrow> other_op list) \<Rightarrow> bool" where
  "silent_from N aws sched \<longleftrightarrow> (\<forall>hist. N \<le> reads hist (pipe_read aws) \<longrightarrow> sched hist = [])"

lemma walk_ends:
  assumes fifo: "queue_fifo E" and keeps: "keeps_to hs sched" and silent: "silent_from N aws sched"
  shows "walking E hs P h q ws aws k w \<Longrightarrow>
    \<exists>r w'. PollEvent (among_others E h sched) (pipe_read aws) (self_elements hs) w = Some (r, w')"
proof -
  let ?R = "inv_image (less_than <*lex*> less_than)
    (\<lambda>w. (N - reads (calls w) (pipe_read aws), length (content (pipe_of aws (calls w)))))"
  have wf: "wf ?R" by (intro wf_inv_image wf_lex_prod wf_less_than)
  show "walking E hs P h q ws aws k w \<Longrightarrow>
    \<exists>r w'. PollEvent (among_others E h sched) (pipe_read aws) (self_elements hs) w = Some (r, w')"
proof (induction w rule: wf_induct_rule [OF wf])
  case (1 w)
  note IH = 1(1)
  let ?calm = "N \<le> reads (calls w) (pipe_read aws) + 1"
  have "scheduled ?calm (reads (calls w) (pipe_read aws) + 1) hs aws sched"
    using keeps silent by (auto simp: scheduled_def keeps_to_def silent_from_def)
  from round_among [OF fifo 1(2) this, of "PollEvent (among_others E h sched) (pipe_read aws) (self_elements hs)"]
  show ?case
  proof (elim disjE exE conjE, goal_cases)
    case (1 r w')
    then show ?case by (metis PollEvent_round)
  next
    case (2 w')
    then have "(w', w) \<in> ?R" by (cases "N \<le> reads (calls w) (pipe_read aws)") auto
    from IH [OF this 2(2)] 2(1) show ?case by (metis PollEvent_round)
  qed
qed
qed

section \<open>The wait\<close>

text \<open>
  \<open>poll\<close> on the pipe alone: it does not sleep while there is something in the pipe, and when it
  reports that a descriptor is ready, that is the pipe.
\<close>

definition poll_call :: "env \<Rightarrow> android_wait_set \<Rightarrow> xcall" where
  "poll_call E aws = Sys (SysPoll [\<lparr>pfd = pipe_read aws, poll_events = POLLIN\<rparr>] (MAX_SCHED_WAIT E))"

definition poll_law :: "env \<Rightarrow> android_wait_set \<Rightarrow> bool" where
  "poll_law E aws \<longleftrightarrow> (\<forall>hist. let r = respond E hist (poll_call E aws) in
     (content (pipe_of aws hist) \<noteq> [] \<longrightarrow> r_ret r > 0) \<and> (r_ret r > 0 \<longrightarrow> (\<exists>re res. r_revents r = re # res \<and> re \<noteq> 0)))"

text \<open>
  A wait has found a signalled event in its scan, or it reaches the poll: all events have been
  looked at, and those that are signalled now were heard.
\<close>

lemma wait_reaches_poll:
  assumes fifo: "queue_fifo E" and live: "live_set E hs P h q ws aws w" and ok: "\<And>n. scheduled calm n hs aws sched"
    and m: "\<And>hist. r_addr (respond E hist (Pkg Malloc)) \<noteq> OFC_NULL"
    and items: "\<And>hist. r_items (respond E hist (Core (QueueItems (hHandleQueue ws)))) = hs"
    and poll: "poll_law E aws"
  obtains (hit) r w' v0 v where
      "ofc_waitset_wait_impl (among_others E h sched) (\<lambda>m. m) h w = Some (r, w')" "r \<in> set hs"
      "polled (pipe_of aws (calls w')) = polled (pipe_of aws (calls w))"
      "same_mem w v0" "content (pipe_of aws (calls v0)) = []" "others_did calm hs P aws v0 v" "raised P r v"
  | (asleep) f v0 v where "quiet aws f" "same_mem w v0" "content (pipe_of aws (calls v0)) = []"
      "others_did calm hs P aws v0 v" "walking E hs P h q ws aws (refused (pipe_of aws (calls w))) v"
      "audible (set hs) P aws v" "polled (pipe_of aws (calls v)) = polled (pipe_of aws (calls w))"
      "ofc_waitset_wait_impl (among_others E h sched) (\<lambda>m. m) h w = map_option (\<lambda>(r, x). (r, f x))
        (let r = respond E (calls v) (poll_call E aws); v' = logged (poll_call E aws) r v in
         if r_ret r > 0 then PollEvent (among_others E h sched) (pipe_read aws) (self_elements hs) v'
         else Some (OFC_HANDLE_NULL, v'))"
proof -
  let ?H = "among_others E h sched" and ?k = "refused (pipe_of aws (calls w))"
  have law: "pipe_law ?H aws" and set: "events_in E hs P h" and ws: "waitset_at ?H h q ws aws w"
    using live by (simp_all add: live_set_def pipe_law_among waitset_at_def locks_to_def)
  obtain queue al ol v0 where v0: "same_mem w v0" "\<And>g. dead (calls v0) g = dead (calls w) g"
    "content (pipe_of aws (calls v0)) = []" "refused (pipe_of aws (calls v0)) = ?k"
    "polled (pipe_of aws (calls v0)) = polled (pipe_of aws (calls w))"
    and wait: "ofc_waitset_wait_impl ?H (\<lambda>m. m) h w =
      map_option (\<lambda>(r, w2). (r, ofc_handle_unlock ?H h w2)) (scan_and_poll ?H (\<lambda>m. m) aws queue hs (scan_start ?H aws al ol) v0)"
    by (rule wait_reaches_scan [OF law ws, of hs "\<lambda>m. m"]) (use m items in simp_all)
  have live0: "live_set E hs P h q ws aws v0"
    using live v0(2) by (simp add: live_set_def event_at_def waitset_at_def same_memD [OF v0(1)])
  let ?s = "scan_start ?H aws al ol"
  have "yields (scan_handles ?H hs ?s v0) (\<lambda>(s', w'). others_did calm hs P aws v0 w' \<and>
      (if triggered_event s' = OFC_HANDLE_NULL
       then (\<exists>ps. s' = ?s\<lparr>eventQueue := eventQueue ?s @ self_elements hs, element_ptrs := ps\<rparr>) \<and>
         heard ?k ({} \<union> set hs) P aws w' \<and> audible ({} \<union> set hs) P aws w'
       else triggered_event s' \<in> set hs \<and> (\<exists>v. raised P (triggered_event s') v \<and> others_did calm hs P aws v0 v)))"
    by (rule scan_among [OF ok m live0]) (simp_all add: scan_start_def heard_def audible_def v0(4))
  then obtain x where x: "scan_handles ?H hs ?s v0 = Some x" "case x of (s', w') \<Rightarrow> others_did calm hs P aws v0 w' \<and>
      (if triggered_event s' = OFC_HANDLE_NULL
       then (\<exists>ps. s' = ?s\<lparr>eventQueue := eventQueue ?s @ self_elements hs, element_ptrs := ps\<rparr>) \<and>
         heard ?k ({} \<union> set hs) P aws w' \<and> audible ({} \<union> set hs) P aws w'
       else triggered_event s' \<in> set hs \<and> (\<exists>v. raised P (triggered_event s') v \<and> others_did calm hs P aws v0 v))"
    by (rule yieldsE)
  obtain s v where sv: "x = (s, v)" by (cases x)
  have s: "scan_handles ?H hs ?s v0 = Some (s, v)" "others_did calm hs P aws v0 v"
    "if triggered_event s = OFC_HANDLE_NULL
       then (\<exists>ps. s = ?s\<lparr>eventQueue := eventQueue ?s @ self_elements hs, element_ptrs := ps\<rparr>) \<and>
         heard ?k (set hs) P aws v \<and> audible (set hs) P aws v
       else triggered_event s \<in> set hs \<and> (\<exists>u. raised P (triggered_event s) u \<and> others_did calm hs P aws v0 u)"
    using x unfolding sv prod.case Un_empty_left by blast+
  let ?f = "\<lambda>w. ofc_handle_unlock ?H h (free_scan ?H queue s w)"
  have q: "quiet aws ?f" using fifo by (intro quiet_end) (simp add: queue_fifo_among)
  have pd: "polled (pipe_of aws (calls v)) = polled (pipe_of aws (calls w))" using others_didD(3) [OF s(2)] v0(5) by simp
  show ?thesis
  proof (cases "triggered_event s = OFC_HANDLE_NULL")
    case False
    with s(3) obtain u where u: "triggered_event s \<in> set hs" "raised P (triggered_event s) u" "others_did calm hs P aws v0 u"
      by auto
    have "ofc_waitset_wait_impl ?H (\<lambda>m. m) h w = Some (triggered_event s, ?f v)"
      using s(1) False by (simp add: wait scan_and_poll_def)
    moreover have "polled (pipe_of aws (calls (?f v))) = polled (pipe_of aws (calls w))"
      using q pd by (simp add: quiet_def)
    ultimately show ?thesis using u v0(1,3) by (intro hit)
  next
    case True
    with s(3) obtain ps where ps: "s = ?s\<lparr>eventQueue := self_elements hs, element_ptrs := ps\<rparr>"
      and h: "heard ?k (set hs) P aws v" "audible (set hs) P aws v" by (auto simp: scan_start_def)
    let ?r = "respond E (calls v) (poll_call E aws)"
    let ?v = "logged (poll_call E aws) ?r v"
    have rv: "\<exists>re res. r_revents ?r = re # res \<and> re \<noteq> 0" if "r_ret ?r > 0"
      using poll that by (auto simp: poll_law_def Let_def)
    have "poll_handles ?H (\<lambda>m. m) (pipe_read aws) s v =
        (if r_ret ?r > 0 then PollEvent ?H (pipe_read aws) (self_elements hs) ?v else Some (OFC_HANDLE_NULL, ?v))"
      using rv by (auto simp: ps scan_start_def poll_handles_def call_def Let_def poll_call_def)
    then have "ofc_waitset_wait_impl ?H (\<lambda>m. m) h w = map_option (\<lambda>(r, x). (r, ?f x))
        (let r = ?r; v' = logged (poll_call E aws) r v in
         if r_ret r > 0 then PollEvent ?H (pipe_read aws) (self_elements hs) v' else Some (OFC_HANDLE_NULL, v'))"
      using s(1) True
      by (cases "PollEvent ?H (pipe_read aws) (self_elements hs) ?v") (auto simp: wait scan_and_poll_def Let_def)
    moreover have "walking E hs P h q ws aws ?k v" using others_didD(8) [OF s(2) live0] h(1) by (simp add: walking_def)
    ultimately show ?thesis using q v0(1,3) s(2) h(2) pd by (intro asleep)
  qed
qed

lemma quiet_ends: "quiet aws f \<Longrightarrow> poll_ends k hs P aws r v \<Longrightarrow> poll_ends k hs P aws r (f v)"
  using same_memD(2) [of v "f v"] by (simp add: quiet_def poll_ends_def raised_def)

lemma walking_polled:
  "walking E hs P h q ws aws k v \<Longrightarrow> walking E hs P h q ws aws k (logged (poll_call E aws) r v)"
  "pipe_of aws ((poll_call E aws, r) # cs) = (pipe_of aws cs)\<lparr>taken := [], polled := r_ret r # polled (pipe_of aws cs)\<rparr>"
  by (simp_all add: walking_def live_set_def event_at_def waitset_at_def heard_def raised_def poll_call_def Let_def)


lemma wait_among_ends:
  assumes fifo: "queue_fifo E" and live: "live_set E hs P h q ws aws w"
    and others: "keeps_to hs sched" "silent_from N aws sched"
    and m: "\<And>hist. r_addr (respond E hist (Pkg Malloc)) \<noteq> OFC_NULL"
    and items: "\<And>hist. r_items (respond E hist (Core (QueueItems (hHandleQueue ws)))) = hs"
    and poll: "poll_law E aws"
  shows "yields (ofc_waitset_wait_impl (among_others E h sched) (\<lambda>m. m) h w) (\<lambda>(r, w').
    poll_ends (refused (pipe_of aws (calls w))) hs P aws r w')"
proof (rule wait_reaches_poll [OF fifo live keeps_scheduled [OF others(1)] m items poll])
  fix r w'
  assume "ofc_waitset_wait_impl (among_others E h sched) (\<lambda>m. m) h w = Some (r, w')" "r \<in> set hs"
  then show "yields (ofc_waitset_wait_impl (among_others E h sched) (\<lambda>m. m) h w)
      (\<lambda>(r, w'). poll_ends (refused (pipe_of aws (calls w))) hs P aws r w')"
    by (simp add: wp poll_ends_def)
next
  fix f and v :: world
  let ?k = "refused (pipe_of aws (calls w))" and ?H = "among_others E h sched"
  let ?r = "respond E (calls v) (poll_call E aws)"
  let ?v = "logged (poll_call E aws) ?r v"
  assume f: "quiet aws f" and v: "walking E hs P h q ws aws ?k v" "audible (set hs) P aws v"
    and wait: "ofc_waitset_wait_impl ?H (\<lambda>m. m) h w = map_option (\<lambda>(r, x). (r, f x))
        (let r = ?r; v' = logged (poll_call E aws) r v in
         if r_ret r > 0 then PollEvent ?H (pipe_read aws) (self_elements hs) v' else Some (OFC_HANDLE_NULL, v'))"
  note walk = walking_polled(1) [OF v(1), of ?r]
  show "yields (ofc_waitset_wait_impl ?H (\<lambda>m. m) h w) (\<lambda>(r, w'). poll_ends ?k hs P aws r w')"
  proof (cases "r_ret ?r > 0")
    case False
    then have "content (pipe_of aws (calls v)) = []" using poll by (auto simp: poll_law_def Let_def)
    then have "poll_ends ?k hs P aws OFC_HANDLE_NULL ?v" using v(2) by (auto simp: audible_def poll_ends_def raised_def)
    then show ?thesis using False quiet_ends [OF f] by (simp add: wait wp Let_def)
  next
    case True
    obtain r x where x: "PollEvent ?H (pipe_read aws) (self_elements hs) ?v = Some (r, x)"
      using walk_ends [OF fifo others walk] by blast
    then have "poll_ends ?k hs P aws r x" using returns_D [OF walk_among [OF fifo others(1) walk] x] by simp
    then show ?thesis using True x quiet_ends [OF f] by (simp add: wait wp Let_def)
  qed
qed

text \<open>
  C8. If the others act, as often as they like, only until the pipe has been read some number of
  times, the wait ends: it returns an event of the set; or none, and then none is signalled, or
  the thread has read a wake, or the pipe has refused a write since the wait began.
\<close>

theorem set_ends_wait:
  assumes fifo: "queue_fifo E" and live: "live_set E hs P h q ws aws w"
    and others: "keeps_to hs sched" "silent_from N aws sched"
    and m: "\<And>hist. r_addr (respond E hist (Pkg Malloc)) \<noteq> OFC_NULL"
    and items: "\<And>hist. r_items (respond E hist (Core (QueueItems (hHandleQueue ws)))) = hs"
    and poll: "poll_law E aws"
  shows "yields (ofc_waitset_wait_impl (among_others E h sched) (\<lambda>m. m) h w) (\<lambda>(r, w').
    r \<in> set hs \<or> r = OFC_HANDLE_NULL \<and> ((\<forall>g\<in>set hs. \<not> raised P g w') \<or>
      OFC_HANDLE_NULL \<in> set (taken (pipe_of aws (calls w'))) \<or>
      refused (pipe_of aws (calls w)) < refused (pipe_of aws (calls w'))))"
  by (rule wait_among_ends [unfolded poll_ends_def, OF fifo live others m items poll])

text \<open>
  C9. A plain wake that is written before the wait has emptied the pipe leaves no trace: the
  waiting thread reads and discards it, finds no event signalled, and sleeps until its time is
  up.
\<close>

theorem wake_lost:
  assumes fifo: "queue_fifo E" and live: "live_set E hs P h q ws aws w" and none: "\<forall>g\<in>set hs. \<not> raised P g w"
    and m: "\<And>hist. r_addr (respond E hist (Pkg Malloc)) \<noteq> OFC_NULL"
    and items: "\<And>hist. r_items (respond E hist (Core (QueueItems (hHandleQueue ws)))) = hs"
    and poll: "poll_law E aws"
    and timeout: "\<And>hist. content (pipe_of aws hist) = [] \<Longrightarrow> r_ret (respond E hist (poll_call E aws)) = 0"
  shows "yields (do {
      w1 \<leftarrow> ofc_waitset_wake_impl (linked E) h w;
      (r, w2) \<leftarrow> ofc_waitset_wait_impl (linked E) (\<lambda>m. m) h w1;
      Some (w1, r, w2) })
    (\<lambda>(w1, r, w2). written (calls w1) (pipe_write aws) = written (calls w) (pipe_write aws) @ [OFC_HANDLE_NULL] \<and>
      content (pipe_of aws (calls w1)) \<noteq> [] \<and> r = OFC_HANDLE_NULL \<and>
      polled (pipe_of aws (calls w2)) = 0 # polled (pipe_of aws (calls w)) \<and> content (pipe_of aws (calls w2)) = [])"
proof -
  have lk: "ofc_waitset_wake_impl (linked E) = ofc_waitset_wake_impl E"
    by (rule event_impl_cong) (simp add: linked_def)
  have ws: "waitset_at E h q ws aws w" and law: "pipe_law E aws" using live by (simp_all add: live_set_def)
  obtain w1 where w1: "ofc_waitset_wake_impl E h w = Some w1" "ev_mem w1 = ev_mem w" "ws_mem w1 = ws_mem w"
    "aws_mem w1 = aws_mem w" "\<And>g. dead (calls w1) g = dead (calls w) g"
    "written (calls w1) (pipe_write aws) = written (calls w) (pipe_write aws) @ [OFC_HANDLE_NULL]"
    "offered [OFC_HANDLE_NULL] (pipe_of aws (calls w)) (pipe_of aws (calls w1))"
    using signal_offers [OF ws, of OFC_HANDLE_NULL 0] law by (auto simp: ofc_waitset_wake_impl_def elim!: yieldsE)
  have live1: "live_set E hs P h q ws aws w1"
    using live w1(2-5) by (simp add: live_set_def event_at_def waitset_at_def)
  have p1: "content (pipe_of aws (calls w1)) \<noteq> []" "polled (pipe_of aws (calls w1)) = polled (pipe_of aws (calls w))"
    using w1(7) by (auto simp: offered_def)
  have sched: "scheduled True n hs aws (\<lambda>_. [])" for n by (simp add: scheduled_def)
  have down: False if "same_mem w1 v0" "content (pipe_of aws (calls v0)) = []" "others_did True hs P aws v0 v"
    "g \<in> set hs" "raised P g v" for v0 v g
    using others_didD(5) [OF that(3)] others_didD(7) [OF that(3-5)] that(2,4) none same_memD(2) [OF that(1)] w1(2)
    by (auto simp: raised_def)
  have "yields (ofc_waitset_wait_impl (linked E) (\<lambda>m. m) h w1) (\<lambda>(r, w2). r = OFC_HANDLE_NULL \<and>
      polled (pipe_of aws (calls w2)) = 0 # polled (pipe_of aws (calls w1)) \<and> content (pipe_of aws (calls w2)) = [])"
    unfolding among_nobody [of E h, symmetric]
  proof (rule wait_reaches_poll [OF fifo live1 sched m items poll], goal_cases)
    case (1 r w' v0 v)
    with down show ?case by blast
  next
    case (2 f v0 v)
    have c: "content (pipe_of aws (calls v)) = []" using others_didD(5) [OF 2(4)] 2(3) by simp
    show ?case
      using 2(1,7,8) timeout [OF c] c by (simp add: wp Let_def quiet_def walking_polled(2))
  qed
  then show ?thesis using w1(1,6) p1 by (auto simp: lk wp elim!: yields_mono)
qed

section \<open>Instances\<close>

text \<open>
  One automatic event, 7, in the wait set 8, whose pipe has room for one handle. The other thread
  sets the event once, after the waiting thread has tested it in its scan.
\<close>

definition one_pipe :: android_wait_set where
  "one_pipe = \<lparr>pipe_read = 5, pipe_write = 6\<rparr>"

definition race_env :: env where
  "race_env = ref_env (\<lambda>hist c. case c of
     Pkg Malloc \<Rightarrow> no_resp\<lparr>r_addr := 256\<rparr>
   | Pkg (HandleLock h) \<Rightarrow> no_resp\<lparr>r_addr := (if h = 7 then 64 else if h = 8 then 96 else 0)\<rparr>
   | Pkg (HandleGetType h) \<Rightarrow> no_resp\<lparr>r_type := OFC_HANDLE_EVENT\<rparr>
   | Pkg (HandleGetWaitSet h) \<Rightarrow> no_resp\<lparr>r_addr := 8\<rparr>
   | Core (QueueItems q) \<Rightarrow> no_resp\<lparr>r_items := [7]\<rparr>
   | Sys (SysRead d) \<Rightarrow> (case content (pipe_of one_pipe hist) of
       [] \<Rightarrow> no_resp\<lparr>r_ret := -1\<rparr> | g # gs \<Rightarrow> no_resp\<lparr>r_ret := 8, r_addr := g\<rparr>)
   | Sys (SysWrite d g) \<Rightarrow> no_resp\<lparr>r_ret := (if content (pipe_of one_pipe hist) = [] then 8 else -1)\<rparr>
   | Sys (SysPoll l t) \<Rightarrow> (if content (pipe_of one_pipe hist) = [] then no_resp else no_resp\<lparr>r_ret := 1, r_revents := [POLLIN]\<rparr>)
   | _ \<Rightarrow> no_resp)"

definition set_once :: "history \<Rightarrow> other_op list" where
  "set_once hist = (if reads hist 5 = 1 \<and> content (pipe_of one_pipe hist) = [] \<and>
     Pthread (MutexUnlock 64) \<in> fst ` set hist then [SetEv 7] else [])"

lemma race_env_ok: "queue_fifo race_env" "locks_to race_env 7 64" "locks_to race_env 8 96"
  "r_addr (respond race_env hist (Pkg Malloc)) \<noteq> OFC_NULL" "r_items (respond race_env hist (Core (QueueItems qu))) = [7]"
  "r_ret (respond race_env hist (poll_call race_env one_pipe)) = (if content (pipe_of one_pipe hist) = [] then 0 else 1)"
  by (simp_all add: race_env_def queue_fifo_ref locks_to_def no_resp_def poll_call_def)

lemma race_events: "events_in race_env [7] (\<lambda>_. 64) 8"
  by (simp add: events_in_def race_env_def no_resp_def)

lemma race_pipe: "pipe_law race_env one_pipe" "poll_law race_env one_pipe"
  by (auto simp: pipe_law_def poll_law_def poll_call_def race_env_def no_resp_def Let_def split: list.splits)

lemma race_live: "live_set race_env [7] (\<lambda>_. 64) 8 96 \<lparr>ws_impl = 128, hHandleQueue = 0\<rparr> one_pipe (demo_world OFC_EVENT_AUTO False)"
  using demo_at(1) [OF race_env_ok(2)] demo_at(2) [OF race_env_ok(3)] race_events race_pipe(1)
  by (auto simp: live_set_def one_pipe_def)

lemma set_once_ok: "keeps_to [7] set_once" "silent_from 2 one_pipe set_once"
  by (auto simp: keeps_to_def silent_from_def set_once_def one_pipe_def)

theorem others_announce_witness:
  "yields (run_ops (other_step race_env 8) [SetEv 7, WakeSet, ResetEv 7] (demo_world OFC_EVENT_AUTO True)) (\<lambda>w'.
     written (calls w') 6 = [7, OFC_HANDLE_NULL] \<and> ev_mem w' 64 = Some \<lparr>eventType = OFC_EVENT_AUTO, signalled = False\<rparr>)"
proof -
  have ev: "\<forall>g\<in>set [7]. event_at race_env g 64 \<lparr>eventType = OFC_EVENT_AUTO, signalled = True\<rparr> (demo_world OFC_EVENT_AUTO True)"
    using demo_at(1) [OF race_env_ok(2)] by simp
  show ?thesis
    by (rule yields_mono [OF others_announce [OF race_events ev demo_at(2) [OF race_env_ok(3)]]])
       (auto simp: demo_world_def dest: event_atD(3))
qed


theorem set_ends_wait_witness:
  "yields (ofc_waitset_wait_impl (among_others race_env 8 set_once) (\<lambda>m. m) 8 (demo_world OFC_EVENT_AUTO False))
     (\<lambda>(r, w'). r = 7 \<or> r = OFC_HANDLE_NULL)"
  by (rule yields_mono [OF set_ends_wait [OF race_env_ok(1) race_live set_once_ok race_env_ok(4,5) race_pipe(2)]]) auto

theorem wake_lost_witness:
  "yields (do {
      w1 \<leftarrow> ofc_waitset_wake_impl (linked race_env) 8 (demo_world OFC_EVENT_AUTO False);
      (r, w2) \<leftarrow> ofc_waitset_wait_impl (linked race_env) (\<lambda>m. m) 8 w1;
      Some (w1, r, w2) })
    (\<lambda>(w1, r, w2). written (calls w1) 6 = [OFC_HANDLE_NULL] \<and> r = OFC_HANDLE_NULL \<and> polled (pipe_of one_pipe (calls w2)) = [0])"
proof -
  have none: "\<forall>g\<in>set [7]. \<not> raised (\<lambda>_. 64) g (demo_world OFC_EVENT_AUTO False)"
    by (simp add: raised_def demo_world_def)
  have timeout: "r_ret (respond race_env hist (poll_call race_env one_pipe)) = 0" if "content (pipe_of one_pipe hist) = []" for hist
    using that by (simp add: race_env_ok(6))
  show ?thesis
    by (rule yields_mono [OF wake_lost [OF race_env_ok(1) race_live none race_env_ok(4,5) race_pipe(2) timeout]])
       (auto simp: demo_world_def one_pipe_def)
qed

end
