(* ===== verification/OFC_WaitMixed.thy ===== *)
theory OFC_WaitMixed
  imports OFC_Waitset
begin

text \<open>
  A wait on a set of handles of different kinds (src/src/waitset\_android.c). The scan triggers on
  the first handle that is ready: a signalled event, a queue with a message, a file operation
  whose event is signalled, an expired timer. Otherwise it collects, in one pass, the queue of
  events to recognise in the pipe, the list to poll and the time to sleep. The lemmas determine
  the handle a wait returns and what it changes, for every answer of the poll.
\<close>

section \<open>The kinds of handles\<close>

text \<open>
  An event; a wait queue or an SMB operation, with the event it announces messages by and whether
  it has one; a file operation with its event, of the Android file system or of the resolver once
  the resolver's entry point is known; an open file with its descriptor, which is polled for errors
  only; a socket; a timer; a handle that is ignored.
\<close>

datatype waitable =
    WEvent
  | WQueue handle bool
  | WSignal handle
  | WFile int
  | WSocket handle ptr socket_impl
  | WTimer int
  | WIgnored

definition of_type :: "env \<Rightarrow> handle \<Rightarrow> handle_type \<Rightarrow> bool" where
  "of_type E g t \<longleftrightarrow> (\<forall>hist. r_type (respond E hist (Pkg (HandleGetType g))) = t)"

definition gives_addr :: "env \<Rightarrow> ccall \<Rightarrow> 64 word \<Rightarrow> bool" where
  "gives_addr E c a \<longleftrightarrow> (\<forall>hist. r_addr (respond E hist (Core c)) = a)"

definition gives_ret :: "env \<Rightarrow> ccall \<Rightarrow> int \<Rightarrow> bool" where
  "gives_ret E c n \<longleftrightarrow> (\<forall>hist. r_ret (respond E hist (Core c)) = n)"

definition queue_state :: "env \<Rightarrow> handle \<Rightarrow> handle \<Rightarrow> bool \<Rightarrow> bool" where
  "queue_state E q e b \<longleftrightarrow> gives_addr E (WaitqGetEvent q) e \<and> gives_ret E (WaitqEmpty q) (if b then 0 else 1)"

text \<open>The types that the switch ignores; those of options that are off are among them.\<close>

definition ignored_type :: "env \<Rightarrow> handle_type \<Rightarrow> bool" where
  "ignored_type E t \<longleftrightarrow> t \<notin> {OFC_HANDLE_WAIT_QUEUE, OFC_HANDLE_SOCKET, OFC_HANDLE_FSSMB_OVERLAPPED, OFC_HANDLE_EVENT,
       OFC_HANDLE_TIMER} \<and>
     (t \<in> {OFC_HANDLE_FILE, OFC_HANDLE_FSANDROID_OVERLAPPED} \<longrightarrow> \<not> cfg_fs_android E) \<and>
     (t = OFC_HANDLE_FSRESOLVER_OVERLAPPED \<longrightarrow> \<not> cfg_resolver_fs E)"

fun is_waitable :: "env \<Rightarrow> (handle \<Rightarrow> ptr) \<Rightarrow> (handle \<Rightarrow> android_event) \<Rightarrow> world \<Rightarrow> handle \<Rightarrow> waitable \<Rightarrow> bool" where
  "is_waitable E P ev w g WEvent = (of_type E g OFC_HANDLE_EVENT \<and> event_at E g (P g) (ev g) w)"
| "is_waitable E P ev w g (WQueue e b) = (event_at E e (P e) (ev e) w \<and>
     (of_type E g OFC_HANDLE_WAIT_QUEUE \<and> queue_state E g e b \<or>
      of_type E g OFC_HANDLE_FSSMB_OVERLAPPED \<and>
        (\<exists>q. gives_addr E (FileOverlappedWaitQ g) q \<and> queue_state E q e b)))"
| "is_waitable E P ev w g (WSignal e) = (event_at E e (P e) (ev e) w \<and>
     (cfg_fs_android E \<and> of_type E g OFC_HANDLE_FSANDROID_OVERLAPPED \<and> gives_addr E (FSAndroidOverlappedEvent g) e \<or>
      cfg_resolver_fs E \<and> of_type E g OFC_HANDLE_FSRESOLVER_OVERLAPPED \<and> overlapped_function w \<noteq> OFC_NULL \<and>
        gives_addr E (ResolverOverlappedEvent (overlapped_function w) g) e))"
| "is_waitable E P ev w g (WFile d) = (cfg_fs_android E \<and> of_type E g OFC_HANDLE_FILE \<and>
     gives_ret E (FileGetFSType g) (OFC_FST_ANDROID E) \<and>
     (\<exists>f. gives_addr E (FileGetFSHandle g) f \<and> gives_ret E (FSAndroidGetFD f) d))"
| "is_waitable E P ev w g (WSocket i p s) = (of_type E g OFC_HANDLE_SOCKET \<and> gives_addr E (SocketGetImpl g) i \<and>
     s_events s \<noteq> None \<and> socket_at E i p s w)"
| "is_waitable E P ev w g (WTimer t) = (of_type E g OFC_HANDLE_TIMER \<and> gives_ret E (TimerGetWaitTime g) t)"
| "is_waitable E P ev w g WIgnored = ((\<exists>t. of_type E g t \<and> ignored_type E t) \<or>
     of_type E g OFC_HANDLE_FILE \<and> (\<exists>n. gives_ret E (FileGetFSType g) n \<and> n \<noteq> OFC_FST_ANDROID E))"

definition set_of :: "env \<Rightarrow> handle list \<Rightarrow> (handle \<Rightarrow> waitable) \<Rightarrow> (handle \<Rightarrow> ptr) \<Rightarrow> (handle \<Rightarrow> android_event) \<Rightarrow> world \<Rightarrow> bool" where
  "set_of E hs K P ev w \<longleftrightarrow> (\<forall>g\<in>set hs. g \<noteq> OFC_HANDLE_NULL \<and> is_waitable E P ev w g (K g))"

fun is_ready :: "(handle \<Rightarrow> android_event) \<Rightarrow> handle \<Rightarrow> waitable \<Rightarrow> bool" where
  "is_ready ev g WEvent = signalled (ev g)"
| "is_ready ev g (WQueue e b) = b"
| "is_ready ev g (WSignal e) = signalled (ev e)"
| "is_ready ev g (WTimer t) = (t = 0)"
| "is_ready ev g _ = False"

text \<open>What a handle that is not ready adds to the scan.\<close>

fun element :: "handle \<Rightarrow> waitable \<Rightarrow> event_element list" where
  "element g WEvent = [\<lparr>hEvent = g, hAssoc = g\<rparr>]"
| "element g (WQueue e b) = [\<lparr>hEvent = e, hAssoc = g\<rparr>]"
| "element g (WSignal e) = [\<lparr>hEvent = e, hAssoc = g\<rparr>]"
| "element g _ = []"

fun entry :: "handle \<Rightarrow> waitable \<Rightarrow> (pollfd \<times> handle) list" where
  "entry g (WFile d) = [(\<lparr>pfd = d, poll_events = 0\<rparr>, g)]"
| "entry g (WSocket i p s) = [(poll_entry s, g)]"
| "entry g _ = []"

fun due :: "handle \<Rightarrow> waitable \<Rightarrow> int \<times> handle \<Rightarrow> int \<times> handle" where
  "due g (WTimer t) b = (if t < fst b then (t, g) else b)"
| "due g _ b = b"

definition advance :: "handle \<Rightarrow> waitable \<Rightarrow> scan \<Rightarrow> scan" where
  "advance g k s = s\<lparr>leastWait := fst (due g k (leastWait s, timer_event s)),
     timer_event := snd (due g k (leastWait s, timer_event s)),
     android_handle_list := android_handle_list s @ map fst (entry g k),
     ofc_handle_list := ofc_handle_list s @ map snd (entry g k),
     eventQueue := eventQueue s @ element g k\<rparr>"

definition at_places :: "ptr \<Rightarrow> ptr \<Rightarrow> ptr list \<Rightarrow> scan \<Rightarrow> scan" where
  "at_places al ol ps s = s\<lparr>android_list_ptr := al, ofc_list_ptr := ol, element_ptrs := ps\<rparr>"

section \<open>The scan\<close>

text \<open>Steps that change nothing but the history, without destroying a handle or reading the pipe.\<close>

definition unseen :: "int \<Rightarrow> world \<Rightarrow> world \<Rightarrow> bool" where
  "unseen d w w' \<longleftrightarrow> same_mem w w' \<and> (\<forall>g. dead (calls w') g = dead (calls w) g) \<and>
     reads (calls w') d = reads (calls w) d"

lemma unseen_trans: "unseen d a b \<Longrightarrow> unseen d b c \<Longrightarrow> unseen d a c"
  by (auto simp: unseen_def intro: same_mem_trans)

lemma is_waitable_same:
  assumes "is_waitable E P ev w g k" and "same_mem w w'" and "\<And>g. dead (calls w') g = dead (calls w) g"
  shows "is_waitable E P ev w' g k"
proof -
  have "overlapped_function w' = overlapped_function w"
    using assms(2) by (cases w; cases w') (simp add: same_mem_def)
  then show ?thesis
    using assms(1) by (cases k) (simp_all add: event_at_def socket_at_def same_memD(1,2) [OF assms(2)] assms(3))
qed

lemma is_waitable_unseen: "is_waitable E P ev w g k \<Longrightarrow> unseen d w w' \<Longrightarrow> is_waitable E P ev w' g k"
  using is_waitable_same [of E P ev w g k w'] by (simp add: unseen_def)

lemma set_of_unseen: "set_of E hs K P ev w \<Longrightarrow> unseen d w w' \<Longrightarrow> set_of E hs K P ev w'"
  by (simp add: set_of_def is_waitable_unseen [where w = w])

lemma givesD:
  "of_type E g t \<Longrightarrow> answers E (Pkg (HandleGetType g)) w r \<Longrightarrow> r_type r = t"
  "gives_addr E c a \<Longrightarrow> answers E (Core c) w r \<Longrightarrow> r_addr r = a"
  "gives_ret E c n \<Longrightarrow> answers E (Core c) w r \<Longrightarrow> r_ret r = n"
  by (simp_all add: of_type_def gives_addr_def gives_ret_def answers_def)

lemma test_unseen:
  assumes "core_forwards E" and "event_at E e p x w"
  shows "yields (core_event_test E e w) (\<lambda>(b, w'). b = signalled x \<and> unseen d w w')"
proof -
  have "yields (ofc_event_test_impl E e w) (\<lambda>y. (case y of (b, w') \<Rightarrow> b = signalled x \<and> event_frame p x w w') \<and>
      (case y of (b, w') \<Rightarrow> reads (calls w') d = reads (calls w) d))"
    by (rule yields_and_returns [OF event_test_live [OF assms(2)] event_calls_reads(1)])
  moreover have "unseen d w w'" if "event_frame p x w w'" "reads (calls w') d = reads (calls w) d" for w'
    using event_frame_same(1) [OF assms(2) that(1)] event_frameD(2) [OF that(1)] that(2) by (simp add: unseen_def)
  ultimately show ?thesis
    using assms(1) by (auto simp: core_forwards_def elim!: yields_mono)
qed

lemma socket_reads:
  "returns (ofc_socket_impl_get_fd E h w) (\<lambda>(x, w'). reads (calls w') d = reads (calls w) d)"
  "returns (ofc_socket_impl_get_event E h w) (\<lambda>(x, w'). reads (calls w') d = reads (calls w) d)"
  by (auto simp: ofc_socket_impl_get_fd_def ofc_socket_impl_get_event_def Let_def wp split: call_splits)

definition scanned :: "int \<Rightarrow> (handle \<Rightarrow> ptr) \<Rightarrow> (handle \<Rightarrow> android_event) \<Rightarrow> handle \<Rightarrow> waitable \<Rightarrow> scan \<Rightarrow> world \<Rightarrow> scan \<times> world \<Rightarrow> bool" where
  "scanned d P ev g k s w x \<longleftrightarrow> (case x of (s', w') \<Rightarrow>
     if is_ready ev g k
     then triggered_event s' = g \<and>
          (if k = WEvent then same_mem (w\<lparr>ev_mem := (ev_mem w)(P g \<mapsto> leave_wait (ev g))\<rparr>) w' else same_mem w w')
     else unseen d w w' \<and> (\<exists>al ol ps. s' = at_places al ol ps (advance g k s)))"

lemma enqueue_advance:
  assumes "\<And>hist. r_addr (respond E hist (Pkg Malloc)) \<noteq> OFC_NULL"
  shows "yields (enqueue_element E e g s w) (\<lambda>(s', w'). unseen d w w' \<and>
    (\<exists>ps. s' = s\<lparr>eventQueue := eventQueue s @ [\<lparr>hEvent = e, hAssoc = g\<rparr>], element_ptrs := ps\<rparr>))"
  using assms by (auto simp: enqueue_element_def Let_def wp unseen_def answers_def split: call_splits)

text \<open>One handle of each kind.\<close>

lemma at_places_I: "s' = at_places (android_list_ptr s') (ofc_list_ptr s') (element_ptrs s') s \<Longrightarrow>
  \<exists>al ol ps. s' = at_places al ol ps s"
  by blast

lemma queue_advance:
  assumes m: "\<And>hist. r_addr (respond E hist (Pkg Malloc)) \<noteq> OFC_NULL" and q: "element g k = [\<lparr>hEvent = e, hAssoc = g\<rparr>]"
    "entry g k = []" "due g k = (\<lambda>b. b)" and w: "unseen d w v" and k: "\<not> is_ready ev g k"
  shows "yields (enqueue_element E e g s v) (scanned d P ev g k s w)"
  using w k
  by (intro yields_mono [OF enqueue_advance [OF m, of e g s v d]])
     (auto simp: scanned_def advance_def q at_places_def intro: unseen_trans intro!: at_places_I [unfolded at_places_def])

lemma scan_event:
  assumes fw: "core_forwards E" and m: "\<And>hist. r_addr (respond E hist (Pkg Malloc)) \<noteq> OFC_NULL"
    and k: "is_waitable E P ev w g WEvent"
  shows "yields (scan_handle E g s w) (scanned d P ev g WEvent s w)"
proof -
  let ?c = "Pkg (HandleGetType g)"
  let ?w = "logged ?c (respond E (calls w) ?c) w"
  have at: "event_at E g (P g) (ev g) ?w" using k by (simp add: event_at_def)
  have ty: "r_type (respond E (calls w) ?c) = OFC_HANDLE_EVENT" using k by (simp add: of_type_def)
  from claim_live [OF fw at, of d] obtain v where
    c: "claim_event (core_event_test E) (core_event_get_type E) (core_event_reset E) g ?w = Some (signalled (ev g), v)"
    and fr: "event_frame (P g) (if signalled (ev g) then leave_wait (ev g) else ev g) ?w v"
    and rd: "reads (calls v) d = reads (calls w) d"
    by (auto elim!: yieldsE)
  have step: "scan_handle E g s w = (if signalled (ev g) then Some (s\<lparr>triggered_event := g\<rparr>, v) else enqueue_element E g g s v)"
    using c ty by (simp add: scan_handle_def scan_switch_def call_def Let_def)
  show ?thesis
  proof (cases "signalled (ev g)")
    case True
    with step fr show ?thesis by (simp add: wp scanned_def event_frame_def)
  next
    case False
    then have "unseen d w v"
      using fr event_frame_same(1) [OF at, of v] event_frameD(2) [OF fr] rd by (simp add: unseen_def)
    from queue_advance [OF m _ _ _ this, of g WEvent g ev s P] False step show ?thesis by (simp add: fun_eq_iff)
  qed
qed

lemma scan_queue:
  assumes m: "\<And>hist. r_addr (respond E hist (Pkg Malloc)) \<noteq> OFC_NULL"
    and k: "is_waitable E P ev w g (WQueue e b)"
  shows "yields (scan_handle E g s w) (scanned d P ev g (WQueue e b) s w)"
proof -
  have enq: "yields (enqueue_element E e g s v) (scanned d P ev g (WQueue e False) s w)" if "unseen d w v" for v
    using queue_advance [OF m _ _ _ that, of g "WQueue e False" e ev s P] by (simp add: fun_eq_iff)
  have hit: "yields (Some (s\<lparr>triggered_event := g\<rparr>, v)) (scanned d P ev g (WQueue e True) s w)" if "same_mem w v" for v
    using that by (simp add: wp scanned_def)
  from k consider (waitq) "of_type E g OFC_HANDLE_WAIT_QUEUE" "queue_state E g e b"
    | (smb) q where "of_type E g OFC_HANDLE_FSSMB_OVERLAPPED" "gives_addr E (FileOverlappedWaitQ g) q" "queue_state E q e b"
    by auto
  then show ?thesis
  proof cases
    case waitq
    note D = givesD(1) [OF waitq(1)] givesD(2) [OF conjunct1 [OF waitq(2) [unfolded queue_state_def]]]
      givesD(3) [OF conjunct2 [OF waitq(2) [unfolded queue_state_def]]]
    show ?thesis
      by (cases b) (auto simp: scan_handle_def scan_switch_def Let_def D unseen_def split: call_splits
          intro!: enq hit dest: D)
  next
    case smb
    note D = givesD(1) [OF smb(1)] givesD(2) [OF smb(2)] givesD(2) [OF conjunct1 [OF smb(3) [unfolded queue_state_def]]]
      givesD(3) [OF conjunct2 [OF smb(3) [unfolded queue_state_def]]]
    show ?thesis
      by (cases b) (auto simp: scan_handle_def scan_switch_def Let_def D unseen_def split: call_splits
          intro!: enq hit dest: D)
  qed
qed

lemma scan_signal:
  assumes fw: "core_forwards E" and m: "\<And>hist. r_addr (respond E hist (Pkg Malloc)) \<noteq> OFC_NULL"
    and k: "is_waitable E P ev w g (WSignal e)"
  shows "yields (scan_handle E g s w) (scanned d P ev g (WSignal e) s w)"
proof -
  have test: "yields (test_or_enqueue E e g s v) (scanned d P ev g (WSignal e) s w)" if "unseen d w v" for v
  proof -
    have at: "event_at E e (P e) (ev e) v"
      using is_waitable_unseen [OF k that] by simp
    show ?thesis
      unfolding test_or_enqueue_def yields_bind
    proof (rule yields_mono [OF test_unseen [OF fw at, of d]], goal_cases)
      case (1 x)
      then obtain v' where x: "x = (signalled (ev e), v')" "unseen d v v'" by (cases x) simp
      from unseen_trans [OF that x(2)] have u: "unseen d w v'" .
      show ?case
        using queue_advance [OF m _ _ _ u, of g "WSignal e" e ev s P] u
        by (cases "signalled (ev e)") (simp_all add: x(1) wp scanned_def [of d P ev g "WSignal e" s w "(s\<lparr>triggered_event := g\<rparr>, v')"]
            fun_eq_iff unseen_def)
    qed
  qed
  from k consider (fs) "cfg_fs_android E" "of_type E g OFC_HANDLE_FSANDROID_OVERLAPPED"
      "gives_addr E (FSAndroidOverlappedEvent g) e"
    | (resolver) "cfg_resolver_fs E" "of_type E g OFC_HANDLE_FSRESOLVER_OVERLAPPED" "overlapped_function w \<noteq> OFC_NULL"
      "gives_addr E (ResolverOverlappedEvent (overlapped_function w) g) e"
    by auto
  then show ?thesis
  proof cases
    case fs
    note D = fs(1) givesD(1) [OF fs(2)] givesD(2) [OF fs(3)]
    show ?thesis
      by (auto simp: scan_handle_def scan_switch_def Let_def D unseen_def split: call_splits intro!: test)
  next
    case resolver
    note D = resolver(1,3) givesD(1) [OF resolver(2)] givesD(2) [OF resolver(4)]
    show ?thesis
      by (auto simp: scan_handle_def scan_switch_def ofc_android_get_resolver_overlapped_event_def Let_def D unseen_def
          split: call_splits intro!: test)
  qed
qed

lemma scan_file:
  assumes m: "\<And>hist q. r_addr (respond E hist (Pkg (Realloc q))) \<noteq> OFC_NULL"
    and k: "is_waitable E P ev w g (WFile d')"
  shows "yields (scan_handle E g s w) (scanned d P ev g (WFile d') s w)"
proof -
  from k obtain f where k': "cfg_fs_android E" "of_type E g OFC_HANDLE_FILE" "gives_ret E (FileGetFSType g) (OFC_FST_ANDROID E)"
    "gives_addr E (FileGetFSHandle g) f" "gives_ret E (FSAndroidGetFD f) d'" by auto
  note D = k'(1) givesD(1) [OF k'(2)] givesD(3) [OF k'(3)] givesD(2) [OF k'(4)] givesD(3) [OF k'(5)]
  have m': "r_addr r \<noteq> OFC_NULL" if "answers E (Pkg (Realloc q)) v r" for q v r
    using m that by (simp add: answers_def)
  have fin: "yields (Some (append_pollfd \<lparr>pfd = d', poll_events = 0\<rparr> g (s\<lparr>android_list_ptr := a, ofc_list_ptr := b\<rparr>), v))
      (scanned d P ev g (WFile d') s w)" if "unseen d w v" for a b v
  proof -
    have "append_pollfd \<lparr>pfd = d', poll_events = 0\<rparr> g (s\<lparr>android_list_ptr := a, ofc_list_ptr := b\<rparr>) =
        at_places a b (element_ptrs s) (advance g (WFile d') s)"
      by (simp add: append_pollfd_def advance_def at_places_def)
    with that show ?thesis by (auto simp: wp scanned_def)
  qed
  show ?thesis
    by (auto simp: scan_handle_def scan_switch_def grow_lists_def Let_def D unseen_def split: call_splits
        dest: m' intro!: fin)
qed

lemma scan_socket:
  assumes m: "\<And>hist q. r_addr (respond E hist (Pkg (Realloc q))) \<noteq> OFC_NULL"
    and k: "is_waitable E P ev w g (WSocket i p sk)" and g: "g \<noteq> OFC_HANDLE_NULL"
  shows "yields (scan_handle E g s w) (scanned d P ev g (WSocket i p sk) s w)"
proof -
  have "sockets_of E [g] (\<lambda>_. i) (\<lambda>_. p) (\<lambda>_. sk) w"
    using k g by (simp add: sockets_of_def of_type_def gives_addr_def)
  from scan_one_socket [OF this m, of s] have
    "yields (scan_handle E g s w) (\<lambda>(s', w'). same_mem w w' \<and> (\<forall>k. dead (calls w') k = dead (calls w) k) \<and>
     (\<exists>al ol. s' = append_pollfd (poll_entry sk) g (s\<lparr>android_list_ptr := al, ofc_list_ptr := ol\<rparr>)))" .
  moreover have "returns (scan_handle E g s w) (\<lambda>(s', w'). reads (calls w') d = reads (calls w) d)"
  proof -
    have ty: "r_type r = OFC_HANDLE_SOCKET" if "answers E (Pkg (HandleGetType g)) v r" for v r
      using k givesD(1) that by auto
    show ?thesis
      by (auto simp: scan_handle_def scan_switch_def grow_lists_def Let_def wp ty split: call_splits
          intro!: returns_mono [OF socket_reads(1) [where d = d]] returns_mono [OF socket_reads(2) [where d = d]])
  qed
  ultimately have "yields (scan_handle E g s w) (\<lambda>x. (case x of (s', w') \<Rightarrow> same_mem w w' \<and>
      (\<forall>k. dead (calls w') k = dead (calls w) k) \<and>
      (\<exists>al ol. s' = append_pollfd (poll_entry sk) g (s\<lparr>android_list_ptr := al, ofc_list_ptr := ol\<rparr>))) \<and>
      (case x of (s', w') \<Rightarrow> reads (calls w') d = reads (calls w) d))"
    by (rule yields_and_returns)
  then show ?thesis
  proof (rule yields_mono, goal_cases)
    case (1 x)
    then obtain al ol w' where x: "x = (append_pollfd (poll_entry sk) g (s\<lparr>android_list_ptr := al, ofc_list_ptr := ol\<rparr>), w')"
      and u: "unseen d w w'" by (cases x) (auto simp: unseen_def)
    have "fst x = at_places al ol (element_ptrs s) (advance g (WSocket i p sk) s)"
      by (simp add: x append_pollfd_def advance_def at_places_def)
    with u show ?case by (auto simp: scanned_def x)
  qed
qed

lemma scan_rest:
  assumes k: "is_waitable E P ev w g k" and t: "(\<exists>t. k = WTimer t) \<or> k = WIgnored"
  shows "yields (scan_handle E g s w) (scanned d P ev g k s w)"
proof -
  have places: "\<exists>al ol ps. s' = at_places al ol ps s'" for s'
    by (rule exI [of _ "android_list_ptr s'"], rule exI [of _ "ofc_list_ptr s'"], rule exI [of _ "element_ptrs s'"])
       (simp add: at_places_def)
  have adv: "yields (Some (s', v)) (scanned d P ev g k s w)"
    if "s' = advance g k s" "\<not> is_ready ev g k" "unseen d w v" for s' v
    using that places by (simp add: wp scanned_def)
  show ?thesis
  proof (cases "k = WIgnored")
    case True
    have same: "s = advance g k s" using True by (simp add: advance_def)
    from True k consider (ignored) t where "of_type E g t" "ignored_type E t"
      | (fs) n where "of_type E g OFC_HANDLE_FILE" "gives_ret E (FileGetFSType g) n" "n \<noteq> OFC_FST_ANDROID E"
      by auto
    then show ?thesis
    proof cases
      case ignored
      note D = givesD(1) [OF ignored(1)]
      from adv [OF same] True ignored(2) show ?thesis
        by (auto simp: scan_handle_def scan_switch_def Let_def D ignored_type_def unseen_def split: call_splits handle_type.split)
    next
      case fs
      note D = givesD(1) [OF fs(1)] givesD(3) [OF fs(2)]
      from adv [OF same] True fs(3) show ?thesis
        by (auto simp: scan_handle_def scan_switch_def Let_def D unseen_def split: call_splits)
    qed
  next
    case False
    then obtain t where kt: "k = WTimer t" using t by blast
    then have k': "of_type E g OFC_HANDLE_TIMER" "gives_ret E (TimerGetWaitTime g) t" using k by simp_all
    note D = givesD(1) [OF k'(1)] givesD(3) [OF k'(2)]
    have eq: "advance g k s = (if t < leastWait s then s\<lparr>leastWait := t, timer_event := g\<rparr> else s)"
      by (simp add: advance_def kt)
    show ?thesis
    proof (cases "t = 0")
      case True
      then show ?thesis
        by (auto simp: scan_handle_def scan_switch_def Let_def D wp scanned_def kt split: call_splits)
    next
      case False
      then have "\<not> is_ready ev g k" by (simp add: kt)
      then show ?thesis
        using False by (auto simp: scan_handle_def scan_switch_def Let_def D eq unseen_def split: call_splits intro!: adv)
    qed
  qed
qed

lemma scan_one:
  assumes "core_forwards E" and "\<And>hist. r_addr (respond E hist (Pkg Malloc)) \<noteq> OFC_NULL"
    and "\<And>hist q. r_addr (respond E hist (Pkg (Realloc q))) \<noteq> OFC_NULL"
    and "is_waitable E P ev w g k" and "g \<noteq> OFC_HANDLE_NULL"
  shows "yields (scan_handle E g s w) (scanned d P ev g k s w)"
  using assms(4)
  by (cases k) (simp_all only: scan_event [OF assms(1,2)] scan_queue [OF assms(2)] scan_signal [OF assms(1,2)]
      scan_file [OF assms(3)] scan_socket [OF assms(3) _ assms(5)] scan_rest simp_thms waitable.distinct waitable.inject)

text \<open>All handles, until one triggers.\<close>

lemma advance_places: "advance g k (at_places al ol ps s) = at_places al ol ps (advance g k s)"
  by (simp add: advance_def at_places_def)

lemma fold_places:
  "fold (\<lambda>g. advance g (K g)) hs (at_places al ol ps s) = at_places al ol ps (fold (\<lambda>g. advance g (K g)) hs s)"
  by (induction hs arbitrary: s) (simp_all add: advance_places)

lemma places_places: "at_places al ol ps (at_places al' ol' ps' s) = at_places al ol ps s"
  by (simp add: at_places_def)

lemma same_mem_update:
  "same_mem w w1 \<Longrightarrow> same_mem (w1\<lparr>ev_mem := (ev_mem w1)(q \<mapsto> e)\<rparr>) w' \<Longrightarrow> same_mem (w\<lparr>ev_mem := (ev_mem w)(q \<mapsto> e)\<rparr>) w'"
  by (cases w; cases w1; cases w') (auto simp: same_mem_def)

lemma scan_mixed:
  assumes env: "core_forwards E" "\<And>hist. r_addr (respond E hist (Pkg Malloc)) \<noteq> OFC_NULL"
    "\<And>hist q. r_addr (respond E hist (Pkg (Realloc q))) \<noteq> OFC_NULL"
  shows "set_of E hs K P ev w \<Longrightarrow> triggered_event s = OFC_HANDLE_NULL \<Longrightarrow>
    yields (scan_handles E hs s w) (\<lambda>(s', w'). case find (\<lambda>g. is_ready ev g (K g)) hs of
        Some g \<Rightarrow> triggered_event s' = g \<and>
          (if K g = WEvent then same_mem (w\<lparr>ev_mem := (ev_mem w)(P g \<mapsto> leave_wait (ev g))\<rparr>) w' else same_mem w w')
      | None \<Rightarrow> unseen d w w' \<and> (\<exists>al ol ps. s' = at_places al ol ps (fold (\<lambda>g. advance g (K g)) hs s)))"
proof (induction hs arbitrary: s w)
  case Nil
  have "s = at_places (android_list_ptr s) (ofc_list_ptr s) (element_ptrs s) s" by (simp add: at_places_def)
  then have "\<exists>al ol ps. s = at_places al ol ps s" by blast
  then show ?case by (simp add: wp unseen_def)
next
  case (Cons g hs)
  have g: "g \<noteq> OFC_HANDLE_NULL" "is_waitable E P ev w g (K g)" and rest: "set_of E hs K P ev w"
    using Cons.prems(1) by (simp_all add: set_of_def)
  from scan_one [OF env g(2,1), of s d] obtain s1 w1 where
    one: "scan_handle E g s w = Some (s1, w1)" "scanned d P ev g (K g) s w (s1, w1)"
    by (auto elim!: yieldsE)
  show ?case
  proof (cases "is_ready ev g (K g)")
    case True
    with one g(1) Cons.prems(2) show ?thesis by (simp add: wp scanned_def scan_handles_stop)
  next
    case False
    with one(2) obtain al ol ps where u: "unseen d w w1" and s1: "s1 = at_places al ol ps (advance g (K g) s)"
      by (auto simp: scanned_def)
    have t1: "triggered_event s1 = OFC_HANDLE_NULL"
      using Cons.prems(2) by (simp add: s1 at_places_def advance_def)
    have sm: "same_mem w w1" using u by (simp add: unseen_def)
    from Cons.IH [OF set_of_unseen [OF rest u] t1]
    have "yields (scan_handles E hs s1 w1) (\<lambda>(s', w'). case find (\<lambda>g. is_ready ev g (K g)) (g # hs) of
        Some g \<Rightarrow> triggered_event s' = g \<and>
          (if K g = WEvent then same_mem (w\<lparr>ev_mem := (ev_mem w)(P g \<mapsto> leave_wait (ev g))\<rparr>) w' else same_mem w w')
      | None \<Rightarrow> unseen d w w' \<and> (\<exists>al ol ps. s' = at_places al ol ps (fold (\<lambda>g. advance g (K g)) (g # hs) s)))"
      using False same_mem_update [OF sm] same_mem_trans [OF sm] unseen_trans [OF u]
      by (elim yields_mono) (auto simp: s1 fold_places places_places split: option.splits if_splits)
    with one(1) g(1) Cons.prems(2) show ?thesis by (simp add: wp)
  qed
qed

text \<open>What the whole scan collects.\<close>

definition elements :: "(handle \<Rightarrow> waitable) \<Rightarrow> handle list \<Rightarrow> event_element list" where
  "elements K hs = concat (map (\<lambda>g. element g (K g)) hs)"

definition entries :: "(handle \<Rightarrow> waitable) \<Rightarrow> handle list \<Rightarrow> (pollfd \<times> handle) list" where
  "entries K hs = concat (map (\<lambda>g. entry g (K g)) hs)"

definition first_due :: "(handle \<Rightarrow> waitable) \<Rightarrow> handle list \<Rightarrow> int \<Rightarrow> int \<times> handle" where
  "first_due K hs T = fold (\<lambda>g. due g (K g)) hs (T, OFC_HANDLE_NULL)"

lemma fold_advance:
  "fold (\<lambda>g. advance g (K g)) hs s =
     (let b = fold (\<lambda>g. due g (K g)) hs (leastWait s, timer_event s) in
      s\<lparr>leastWait := fst b, timer_event := snd b, android_handle_list := android_handle_list s @ map fst (entries K hs),
        ofc_handle_list := ofc_handle_list s @ map snd (entries K hs), eventQueue := eventQueue s @ elements K hs\<rparr>)"
  by (induction hs arbitrary: s) (simp_all add: advance_def Let_def elements_def entries_def)

lemma element_member: "e \<in> set (elements K hs) \<Longrightarrow> \<exists>g\<in>set hs. e \<in> set (element g (K g))"
  by (auto simp: elements_def)

lemma entry_member: "x \<in> set (entries K hs) \<Longrightarrow> snd x \<in> set hs \<and> ((\<exists>i p s. K (snd x) = WSocket i p s \<and> fst x = poll_entry s) \<or>
    (\<exists>d. K (snd x) = WFile d))"
proof -
  assume "x \<in> set (entries K hs)"
  then obtain g where "g \<in> set hs" "x \<in> set (entry g (K g))" by (auto simp: entries_def)
  then show ?thesis by (cases "K g") auto
qed

text \<open>The timer to sleep for is the first of those with the least wait time below the maximum.\<close>

lemma first_due_spec:
  "(fst (fold (\<lambda>g. due g (K g)) hs b) = fst b \<and> snd (fold (\<lambda>g. due g (K g)) hs b) = snd b \<or>
    fst (fold (\<lambda>g. due g (K g)) hs b) < fst b \<and> snd (fold (\<lambda>g. due g (K g)) hs b) \<in> set hs \<and>
    K (snd (fold (\<lambda>g. due g (K g)) hs b)) = WTimer (fst (fold (\<lambda>g. due g (K g)) hs b))) \<and>
   (\<forall>g\<in>set hs. \<forall>t. K g = WTimer t \<longrightarrow> fst (fold (\<lambda>g. due g (K g)) hs b) \<le> t)"
proof (induction hs arbitrary: b)
  case (Cons g hs)
  show ?case using Cons.IH [of "due g (K g) b"] by (cases "K g") (auto split: if_splits)
qed simp

section \<open>The wait\<close>

lemma set_event_events: "returns (ofc_socket_impl_set_event E h re w) (\<lambda>w'. ev_mem w' = ev_mem w)"
  by (auto simp: ofc_socket_impl_set_event_def Let_def wp split: call_splits)

text \<open>What a wait returns and leaves in memory, when no handle was ready and the poll answered \<open>rp\<close>.\<close>

definition poll_outcome ::
  "(handle \<Rightarrow> waitable) \<Rightarrow> handle list \<Rightarrow> int \<Rightarrow> (handle \<Rightarrow> ptr) \<Rightarrow> (handle \<Rightarrow> android_event) \<Rightarrow> handle list \<Rightarrow> resp \<Rightarrow>
   (ptr \<rightharpoonup> android_event) \<Rightarrow> (ptr \<rightharpoonup> socket_impl) \<Rightarrow> handle \<Rightarrow> world \<Rightarrow> bool" where
  "poll_outcome K hs T P ev' arrived rp evm skm r w' \<longleftrightarrow>
     (let i = first_ready (r_revents rp); q = elements K hs in
      if r_ret rp > 0 \<and> i = 0
      then (case pipe_result q ev' arrived of
              Some e \<Rightarrow> r = assoc_of q e \<and> ev_mem w' = evm(P e \<mapsto> leave_wait (ev' e))
            | None \<Rightarrow> r = OFC_HANDLE_NULL \<and> ev_mem w' = evm)
      else ev_mem w' = evm \<and>
        (if r_ret rp > 0
         then r = snd (entries K hs ! (i - 1)) \<and> (\<exists>s p sk. K r = WSocket s p sk \<and>
                sock_mem w' = skm(p \<mapsto> sk\<lparr>s_revents := Some (r_revents rp ! i)\<rparr>))
         else sock_mem w' = skm \<and> r = (if r_ret rp = 0 then snd (first_due K hs T) else OFC_HANDLE_NULL)))"

lemma poll_mixed:
  assumes fw: "core_forwards E" and fifo: "queue_fifo E"
    and set: "set_of E hs K P ev w"
    and s: "android_handle_list s = L" "leastWait s = fst (first_due K hs T0)" "timer_event s = snd (first_due K hs T0)"
      "ofc_handle_list s = OFC_HANDLE_NULL # map snd (entries K hs)" "eventQueue s = elements K hs"
    and L: "L = \<lparr>pfd = d, poll_events = POLLIN\<rparr> # map fst (entries K hs)"
    and poll: "\<And>hist. respond E hist (Sys (SysPoll L (fst (first_due K hs T0)))) = rp"
      "r_ret rp > 0 \<Longrightarrow> length (r_revents rp) = length L \<and> first_ready (r_revents rp) < length L"
      "0 < first_ready (r_revents rp) \<Longrightarrow> \<nexists>d. K (snd (entries K hs ! (first_ready (r_revents rp) - 1))) = WFile d"
    and others: "\<And>e. e \<in> hEvent ` set (elements K hs) \<Longrightarrow> others (ev_mem w) (P e) = Some (ev' e)"
    and new: "feeds E d (reads (calls w) d) arrived"
  shows "yields (poll_handles E others d s w)
    (\<lambda>(r, w'). poll_outcome K hs T0 P ev' arrived rp (others (ev_mem w)) (sock_mem w) r w')"
proof -
  let ?c = "Sys (SysPoll L (fst (first_due K hs T0)))"
  let ?w = "logged ?c rp w\<lparr>ev_mem := others (ev_mem w)\<rparr>"
  let ?i = "first_ready (r_revents rp)" and ?q = "elements K hs"
  have cl: "call E ?c w = (rp, logged ?c rp w)" using poll(1) by (simp add: call_def)
  have null: "snd (first_due K hs T0) \<noteq> OFC_HANDLE_NULL \<or> snd (first_due K hs T0) = OFC_HANDLE_NULL" by blast
  show ?thesis
  proof (cases "r_ret rp > 0")
    case False
    then have "poll_handles E others d s w =
        Some (if r_ret rp = 0 then snd (first_due K hs T0) else OFC_HANDLE_NULL, ?w)"
      using cl by (simp add: poll_handles_def s Let_def)
    with False show ?thesis by (simp add: wp poll_outcome_def Let_def)
  next
    case pos: True
    note len = poll(2) [OF pos]
    have rv: "map (\<lambda>i. if i < length (r_revents rp) then r_revents rp ! i else 0) [0..<length L] = r_revents rp"
      using len by (intro padded) simp
    show ?thesis
    proof (cases "?i = 0")
      case True
      then have run: "poll_handles E others d s w = PollEvent E d ?q ?w"
        using cl pos rv by (simp add: poll_handles_def s Let_def)
      have "queue_events E ?q P ev' ?w"
        unfolding queue_events_def
      proof
        fix e
        assume e: "e \<in> set ?q"
        then obtain g where g: "g \<in> set hs" "e \<in> set (element g (K g))" using element_member by blast
        have "g \<noteq> OFC_HANDLE_NULL" "is_waitable E P ev w g (K g)" using set g(1) by (auto simp: set_of_def)
        then have "hAssoc e \<noteq> OFC_HANDLE_NULL" "event_at E (hEvent e) (P (hEvent e)) (ev (hEvent e)) w"
          using g(2) by (cases "K g"; auto)+
        moreover have "others (ev_mem w) (P (hEvent e)) = Some (ev' (hEvent e))" using others e by blast
        ultimately show "hAssoc e \<noteq> OFC_HANDLE_NULL \<and> event_at E (hEvent e) (P (hEvent e)) (ev' (hEvent e)) ?w"
          by (simp add: event_at_def)
      qed
      moreover have "feeds E d (reads (calls ?w) d) arrived" using new by simp
      ultimately have "yields (PollEvent E d ?q ?w) (\<lambda>(r, w'). case pipe_result ?q ev' arrived of
          None \<Rightarrow> r = OFC_HANDLE_NULL \<and> same_mem ?w w' \<and> balanced ?w w'
        | Some h \<Rightarrow> r = assoc_of ?q h \<and> ev_mem w' = (ev_mem ?w)(P h \<mapsto> leave_wait (ev' h)) \<and> balanced ?w w')"
        by (rule PollEvent_finds [OF fw fifo, rotated])
      then show ?thesis
        using run pos True by (auto simp: poll_outcome_def Let_def dest: same_memD(2) elim!: yields_mono split: option.splits)
    next
      case nz: False
      let ?x = "entries K hs ! (?i - 1)"
      have lenL: "length L = Suc (length (entries K hs))" by (simp add: L)
      have "?i - 1 < length (entries K hs)" using len lenL nz by linarith
      then have x: "?x \<in> set (entries K hs)" and name: "ofc_handle_list s ! ?i = snd ?x"
        using nz by (simp_all add: s nth_Cons')
      from entry_member [OF x] poll(3) nz obtain i p sk where k: "snd ?x \<in> set hs" "K (snd ?x) = WSocket i p sk" by blast
      have "is_waitable E P ev w (snd ?x) (WSocket i p sk)" using set k by (auto simp: set_of_def)
      then have at: "socket_at E i p sk w" and im: "gives_addr E (SocketGetImpl (snd ?x)) i" by simp_all
      let ?k = "Core (SocketGetImpl (snd ?x))"
      let ?w2 = "logged ?k (respond E (calls ?w) ?k) ?w"
      have "0 < ?i" "?i < length (android_handle_list s)" "length (r_revents rp) = length (android_handle_list s)"
        using nz len by (simp_all add: s)
      from poll_handles_ready [OF _ pos this(3) refl this(1,2), of E w _ others d] cl
      have "poll_handles E others d s w = do {
          w \<leftarrow> ofc_socket_impl_set_event E i (r_revents rp ! ?i) ?w2;
          Some (snd ?x, w) }"
        using im by (simp add: s(1,2) name call_addr_def call_def gives_addr_def Let_def)
      moreover have "socket_at E i p sk ?w2" using at by (simp add: socket_at_def)
      from yields_and_returns [OF set_event_live [OF this, of "r_revents rp ! ?i"] set_event_events]
      have "yields (ofc_socket_impl_set_event E i (r_revents rp ! ?i) ?w2) (\<lambda>w'. ev_mem w' = others (ev_mem w) \<and>
          sock_mem w' = (sock_mem w)(p \<mapsto> sk\<lparr>s_revents := Some (r_revents rp ! ?i)\<rparr>))"
        by (rule yields_mono) simp
      ultimately show ?thesis
        using pos nz k(2) by (auto simp: wp poll_outcome_def Let_def elim!: yields_mono)
    qed
  qed
qed

text \<open>
  C1. A wait on a set of handles of any kinds discards what was in the pipe, then returns the
  first handle that is ready: a signalled event, which it resets if it is automatic, a queue
  with a message, a file operation whose event is signalled, an expired timer. If none is, it
  polls the pipe, every socket for the events it has enabled and every open file for errors,
  until the nearest timer is due, at most for the scheduler's maximum. When the pipe is ready it
  returns the handle of the first announced event that is signalled by then; otherwise the first
  socket that is ready, after storing the reported events in it (a file that is ready first is
  left out); when the time is over the first of the timers that are due soonest, if one is due
  before the maximum.
\<close>

theorem wait_on_set:
  assumes fw: "core_forwards E" and fifo: "queue_fifo E"
    and ws: "waitset_at E h p ws aws w"
    and m: "\<And>hist. r_addr (respond E hist (Pkg Malloc)) \<noteq> OFC_NULL"
      "\<And>hist q. r_addr (respond E hist (Pkg (Realloc q))) \<noteq> OFC_NULL"
    and items: "\<And>hist. r_items (respond E hist (Core (QueueItems (hHandleQueue ws)))) = hs"
    and set: "set_of E hs K P ev w"
    and old: "feeds E (pipe_read aws) (reads (calls w) (pipe_read aws)) stale"
    and L: "L = \<lparr>pfd = pipe_read aws, poll_events = POLLIN\<rparr> # map fst (entries K hs)"
    and poll: "\<And>hist. respond E hist (Sys (SysPoll L (fst (first_due K hs (MAX_SCHED_WAIT E))))) = rp"
      "r_ret rp > 0 \<Longrightarrow> length (r_revents rp) = length L \<and> first_ready (r_revents rp) < length L"
      "0 < first_ready (r_revents rp) \<Longrightarrow> \<nexists>d. K (snd (entries K hs ! (first_ready (r_revents rp) - 1))) = WFile d"
    and others: "\<And>e. e \<in> hEvent ` set (elements K hs) \<Longrightarrow> others (ev_mem w) (P e) = Some (ev' e)"
    and new: "feeds E (pipe_read aws) (reads (calls w) (pipe_read aws) + length stale + 1) arrived"
  shows "yields (ofc_waitset_wait_impl E others h w) (\<lambda>(r, w').
    case find (\<lambda>g. is_ready ev g (K g)) hs of
      Some g \<Rightarrow> r = g \<and> sock_mem w' = sock_mem w \<and>
        ev_mem w' = (if K g = WEvent then (ev_mem w)(P g \<mapsto> leave_wait (ev g)) else ev_mem w)
    | None \<Rightarrow> poll_outcome K hs (MAX_SCHED_WAIT E) P ev' arrived rp (others (ev_mem w)) (sock_mem w) r w')"
    (is "yields _ (\<lambda>(r, w'). ?Q r w')")
proof (rule wait_live [OF ws m(1) items old])
  show mem: "?Q r b" if Q: "?Q r a" and sm: "same_mem a b" for r a b
    using Q unfolding poll_outcome_def same_memD(1,2) [OF sm] .
  fix queue al ol w1
  assume w1: "same_mem w w1" "\<And>g. dead (calls w1) g = dead (calls w) g"
    and rd: "reads (calls w1) (pipe_read aws) = reads (calls w) (pipe_read aws) + length stale + 1"
  let ?s = "scan_start E aws al ol" and ?d = "pipe_read aws"
  have set1: "set_of E hs K P ev w1"
    using set is_waitable_same [OF _ w1] by (simp add: set_of_def)
  note em = same_memD(1,2) [OF w1(1)]
  have t0: "triggered_event ?s = OFC_HANDLE_NULL" by (simp add: scan_start_def)
  show "yields (scan_and_poll E others aws queue hs ?s w1) (\<lambda>(r, w2). ?Q r w2)"
  proof (rule scan_and_poll_live [OF fifo _ mem])
    show "yields (scan_handles E hs ?s w1) (\<lambda>(s', w').
      if triggered_event s' = OFC_HANDLE_NULL
      then yields (poll_handles E others ?d s' w') (\<lambda>(r, w2). ?Q r w2)
      else ?Q (triggered_event s') w')"
    proof (rule yields_mono [OF scan_mixed [OF fw m set1 t0, of ?d]], goal_cases)
      case (1 x)
      obtain s' w' where x: "x = (s', w')" by (cases x)
      note 1 = 1 [unfolded x prod.case]
      show ?case unfolding x prod.case
      proof (cases "find (\<lambda>g. is_ready ev g (K g)) hs")
        case (Some g)
        then have "g \<in> set hs" by (auto simp: find_Some_iff)
        then have g: "g \<noteq> OFC_HANDLE_NULL" using set by (simp add: set_of_def)
        show "if triggered_event s' = OFC_HANDLE_NULL
          then yields (poll_handles E others ?d s' w') (\<lambda>(r, w2). ?Q r w2) else ?Q (triggered_event s') w'"
        proof (cases "K g = WEvent")
          case True
          with 1 Some have "same_mem (w1\<lparr>ev_mem := (ev_mem w1)(P g \<mapsto> leave_wait (ev g))\<rparr>) w'" by simp
          from same_memD(1,2) [OF this] 1 Some True g em show ?thesis by simp
        next
          case False
          with 1 Some have "same_mem w1 w'" by simp
          from same_memD(1,2) [OF this] 1 Some False g em show ?thesis by simp
        qed
      next
        case None
        with 1 obtain al' ol' ps where u: "unseen ?d w1 w'"
          and s': "s' = at_places al' ol' ps (fold (\<lambda>g. advance g (K g)) hs ?s)" by auto
        have em': "ev_mem w' = ev_mem w" "sock_mem w' = sock_mem w"
          using same_memD(1,2) [of w1 w'] u em by (simp_all add: unseen_def)
        have f: "feeds E ?d (reads (calls w') ?d) arrived" using new rd u by (simp add: unseen_def)
        have o: "others (ev_mem w') (P e) = Some (ev' e)" if "e \<in> hEvent ` set (elements K hs)" for e
          using others [OF that] em' by simp
        have ss: "android_handle_list s' = L" "leastWait s' = fst (first_due K hs (MAX_SCHED_WAIT E))"
          "timer_event s' = snd (first_due K hs (MAX_SCHED_WAIT E))"
          "ofc_handle_list s' = OFC_HANDLE_NULL # map snd (entries K hs)" "eventQueue s' = elements K hs"
          "triggered_event s' = OFC_HANDLE_NULL"
          by (simp_all add: s' at_places_def fold_advance scan_start_def first_due_def Let_def L)
        have "yields (poll_handles E others ?d s' w') (\<lambda>(r, w2). poll_outcome K hs (MAX_SCHED_WAIT E) P ev' arrived rp
            (others (ev_mem w')) (sock_mem w') r w2)"
          by (rule poll_mixed [OF fw fifo set_of_unseen [OF set1 u] ss(1-5) L]; (rule poll(1) o f)?; (erule poll(2,3))?)
        then
        show "if triggered_event s' = OFC_HANDLE_NULL
          then yields (poll_handles E others ?d s' w') (\<lambda>(r, w2). ?Q r w2) else ?Q (triggered_event s') w'"
          using None ss(6) em' by simp
      qed
    qed
  qed
qed

section \<open>An instance\<close>

text \<open>
  A timer, an event and a socket. The poll reports \<open>rv\<close>; while the thread sleeps another one
  sets the event, 7, and announces it.
\<close>

definition mixed_env :: "(16 word) list \<Rightarrow> env" where
  "mixed_env rv = linked (ref_env (\<lambda>hist c. case c of
     Pkg Malloc \<Rightarrow> no_resp\<lparr>r_addr := 256\<rparr>
   | Pkg (Realloc q) \<Rightarrow> no_resp\<lparr>r_addr := 256\<rparr>
   | Pkg (HandleLock h) \<Rightarrow> no_resp\<lparr>r_addr := (if h = 7 then 64 else if h = 8 then 96 else if h = 9 then 160 else 0)\<rparr>
   | Pkg (HandleGetType h) \<Rightarrow> no_resp\<lparr>r_type :=
       (if h = 7 then OFC_HANDLE_EVENT else if h = 9 then OFC_HANDLE_SOCKET else OFC_HANDLE_TIMER)\<rparr>
   | Core (QueueItems q) \<Rightarrow> no_resp\<lparr>r_items := [20, 7, 9]\<rparr>
   | Core (TimerGetWaitTime g) \<Rightarrow> no_resp\<lparr>r_ret := uint g\<rparr>
   | Core (SocketGetImpl g) \<Rightarrow> no_resp\<lparr>r_addr := g\<rparr>
   | Sys (SysRead d) \<Rightarrow> (if reads hist d = 1 then no_resp\<lparr>r_ret := 8, r_addr := 7\<rparr> else no_resp\<lparr>r_ret := -1\<rparr>)
   | Sys (SysPoll l t) \<Rightarrow> no_resp\<lparr>r_ret := 1, r_revents := rv\<rparr>
   | _ \<Rightarrow> no_resp))"

definition mixed_kind :: "handle \<Rightarrow> waitable" where
  "mixed_kind g = (if g = 7 then WEvent else if g = 9 then WSocket 9 160 idle_socket else WTimer (uint g))"

definition mixed_world :: world where
  "mixed_world = (demo_world OFC_EVENT_AUTO False)\<lparr>sock_mem := [160 \<mapsto> idle_socket]\<rparr>"

lemma respond_mixed [simp]:
  "respond (mixed_env rv) hist (Pkg Malloc) = no_resp\<lparr>r_addr := 256\<rparr>"
  "respond (mixed_env rv) hist (Pkg (Realloc q)) = no_resp\<lparr>r_addr := 256\<rparr>"
  "respond (mixed_env rv) hist (Pkg (HandleLock h)) =
     no_resp\<lparr>r_addr := (if h = 7 then 64 else if h = 8 then 96 else if h = 9 then 160 else 0)\<rparr>"
  "respond (mixed_env rv) hist (Pkg (HandleGetType h)) = no_resp\<lparr>r_type :=
       (if h = 7 then OFC_HANDLE_EVENT else if h = 9 then OFC_HANDLE_SOCKET else OFC_HANDLE_TIMER)\<rparr>"
  "respond (mixed_env rv) hist (Core (QueueItems qu)) = no_resp\<lparr>r_items := [20, 7, 9]\<rparr>"
  "respond (mixed_env rv) hist (Core (TimerGetWaitTime g)) = no_resp\<lparr>r_ret := uint g\<rparr>"
  "respond (mixed_env rv) hist (Core (SocketGetImpl g)) = no_resp\<lparr>r_addr := g\<rparr>"
  "respond (mixed_env rv) hist (Sys (SysPoll l t)) = no_resp\<lparr>r_ret := 1, r_revents := rv\<rparr>"
  by (simp_all add: mixed_env_def linked_def)

lemma mixed_env_ok:
  "core_forwards (mixed_env rv)" "queue_fifo (mixed_env rv)" "MAX_SCHED_WAIT (mixed_env rv) = 1000"
  "locks_to (mixed_env rv) 7 64" "locks_to (mixed_env rv) 8 96" "locks_to (mixed_env rv) 9 160"
  by (simp add: mixed_env_def linked_forwards)
     (simp_all add: mixed_env_def linked_def queue_fifo_def ref_env_def locks_to_def no_resp_def)

lemma mixed_feeds: "feeds (mixed_env rv) d 0 []" "feeds (mixed_env rv) d 1 [7]"
  by (auto simp: feeds_def mixed_env_def linked_def no_resp_def)

lemma mixed_waitset: "waitset_at (mixed_env rv) 8 96 \<lparr>ws_impl = 128, hHandleQueue = 0\<rparr>
    \<lparr>pipe_read = 5, pipe_write = 6\<rparr> mixed_world"
  using demo_at(2) [OF mixed_env_ok(5)] by (simp add: waitset_at_def mixed_world_def)

lemma mixed_set: "set_of (mixed_env rv) [20, 7, 9] mixed_kind (\<lambda>_. 64)
    (\<lambda>_. \<lparr>eventType = OFC_EVENT_AUTO, signalled = False\<rparr>) mixed_world"
proof -
  have "event_at (mixed_env rv) 7 64 \<lparr>eventType = OFC_EVENT_AUTO, signalled = False\<rparr> mixed_world"
    using demo_at(1) [OF mixed_env_ok(4)] by (simp add: event_at_def mixed_world_def)
  then show ?thesis
    using mixed_env_ok(6)
    by (simp add: set_of_def mixed_kind_def of_type_def gives_addr_def gives_ret_def socket_at_def
        mixed_world_def demo_world_def no_resp_def idle_socket_def)
qed

theorem wait_on_set_witness:
  "yields (ofc_waitset_wait_impl (mixed_env [0, POLLIN]) set_it 8 mixed_world)
     (\<lambda>(r, w'). r = 9 \<and> sock_mem w' 160 = Some (idle_socket\<lparr>s_revents := Some POLLIN\<rparr>)) \<and>
   yields (ofc_waitset_wait_impl (mixed_env [POLLIN, POLLIN]) set_it 8 mixed_world)
     (\<lambda>(r, w'). r = 7 \<and> ev_mem w' 64 = Some \<lparr>eventType = OFC_EVENT_AUTO, signalled = False\<rparr>)"
proof -
  let ?aws = "\<lparr>pipe_read = 5, pipe_write = 6\<rparr>"
  let ?ev' = "\<lambda>g::handle. \<lparr>eventType = OFC_EVENT_AUTO, signalled = True\<rparr>"
  let ?L = "\<lparr>pfd = pipe_read ?aws, poll_events = POLLIN\<rparr> # map fst (entries mixed_kind [20, 7, 9])"
  have f: "feeds (mixed_env rv) (pipe_read ?aws) (reads (calls mixed_world) (pipe_read ?aws)) []"
    "feeds (mixed_env rv) (pipe_read ?aws) (reads (calls mixed_world) (pipe_read ?aws) + length ([] :: handle list) + 1) [7]" for rv
    using mixed_feeds by (simp_all add: mixed_world_def)
  note run = wait_on_set [OF mixed_env_ok(1,2) mixed_waitset _ _ _ mixed_set f(1) refl _ _ _ _ f(2),
    where others = set_it and ev' = ?ev']
  note eval = no_resp_def set_it_def leave_wait_def poll_outcome_def Let_def mixed_kind_def elements_def
    entries_def assoc_of_def mixed_world_def demo_world_def
  show ?thesis
  proof
    show "yields (ofc_waitset_wait_impl (mixed_env [0, POLLIN]) set_it 8 mixed_world)
      (\<lambda>(r, w'). r = 9 \<and> sock_mem w' 160 = Some (idle_socket\<lparr>s_revents := Some POLLIN\<rparr>))"
      by (rule yields_mono [OF run [where rp = "no_resp\<lparr>r_ret := 1, r_revents := [0, POLLIN]\<rparr>"]]) (auto simp: eval)
    show "yields (ofc_waitset_wait_impl (mixed_env [POLLIN, POLLIN]) set_it 8 mixed_world)
      (\<lambda>(r, w'). r = 7 \<and> ev_mem w' 64 = Some \<lparr>eventType = OFC_EVENT_AUTO, signalled = False\<rparr>)"
      by (rule yields_mono [OF run [where rp = "no_resp\<lparr>r_ret := 1, r_revents := [POLLIN, POLLIN]\<rparr>"]]) (auto simp: eval)
  qed
qed

end
