(* ===== verification/OFC_Session.thy ===== *)
theory OFC_Session
  imports OFC_Process
begin

text \<open>
  The log and the process part together (src/src/console\_android.c, src/src/process\_android.c):
  opening the log writes the version and then, through the dispatcher of the core, the list of
  the loaded libraries, whose walk writes to the log again. The theorem gives the whole contents
  of the file from the first message on, and the load addresses the walk leaves for relative
  addresses.
\<close>

text \<open>
  The dispatcher of the core, \<open>ofc_process_dump_libs\<close>, calls the function of the platform. The log
  calls it only once its file is open.
\<close>

definition dump_forwards :: "env \<Rightarrow> bool" where
  "dump_forwards E \<longleftrightarrow> (\<forall>w. g_fd w \<noteq> STDOUT_FILENO \<longrightarrow> core_process_dump_libs E w = ofc_process_dump_libs_impl E w)"

text \<open>What neither a walk over the libraries nor a message changes, when the log is a file.\<close>

definition log_frame :: "int \<Rightarrow> world \<Rightarrow> world \<Rightarrow> bool" where
  "log_frame d w w' \<longleftrightarrow> g_fd w' = d \<and> log_ix w' = log_ix w \<and> opens (calls w') = opens (calls w) \<and>
     (\<forall>e. e \<noteq> d \<longrightarrow> contents (calls w') e = contents (calls w) e)"

lemma log_frame_trans: "log_frame d a b \<Longrightarrow> log_frame d b c \<Longrightarrow> log_frame d a c"
  by (simp add: log_frame_def)

lemma dump_libs_frame:
  "g_fd w = d \<Longrightarrow> d \<noteq> STDOUT_FILENO \<Longrightarrow>
   returns (run_ops (process_dump_libs_callback E) libs w) (log_frame d w)"
proof (induction libs arbitrary: w)
  case Nil
  then show ?case by (simp add: wp log_frame_def)
next
  case (Cons lib libs)
  have "returns (process_dump_libs_callback E lib w) (log_frame d w)"
    using Cons.prems
    by (auto simp: process_dump_libs_callback_def ofc_write_console_impl_def opens_def log_frame_def
        case_prod_beta Let_def wp split: call_splits)
  moreover have "returns (run_ops (process_dump_libs_callback E) libs v) (log_frame d w)" if v: "log_frame d w v" for v
    using Cons.IH [of v] v Cons.prems(2)
    by (auto simp: log_frame_def elim!: returns_mono)
  ultimately show ?case by (auto simp: wp elim!: returns_mono)
qed

lemma messages_frame:
  assumes "fstat_ok E" and "d \<noteq> STDOUT_FILENO"
  shows "g_fd w = d \<Longrightarrow> returns (run_ops (write_message E) ms w) (\<lambda>w'. log_frame d w w' \<and>
     core_load_addr w' = core_load_addr w \<and> smb_load_addr w' = smb_load_addr w)"
proof (induction ms arbitrary: w)
  case Nil
  then show ?case by (simp add: wp log_frame_def)
next
  case (Cons m ms)
  have stat: "\<not> 0 < r_ret r" if "answers E (File (SysFstat e)) v r" for e v r
    using assms(1) that unfolding fstat_ok_def answers_def by (metis not_less)
  have "returns (write_message E m w) (\<lambda>w'. log_frame d w w' \<and>
     core_load_addr w' = core_load_addr w \<and> smb_load_addr w' = smb_load_addr w)"
    using Cons.prems assms(2)
    by (cases m) (auto simp: ofc_write_log_impl_def ofc_write_stdout_impl_def ofc_write_console_impl_def
        opens_def log_frame_def Let_def wp split: call_splits dest: stat)
  moreover have "returns (run_ops (write_message E) ms v) (\<lambda>w'. log_frame d w w' \<and>
     core_load_addr w' = core_load_addr w \<and> smb_load_addr w' = smb_load_addr w)"
    if v: "log_frame d w v" "core_load_addr v = core_load_addr w" "smb_load_addr v = smb_load_addr w" for v
    using Cons.IH [of v] v
    by (auto simp: log_frame_def elim!: returns_mono)
  ultimately show ?case by (auto simp: wp elim!: returns_mono)
qed

text \<open>The file opens: the version line, then a line for each library, are its first lines.\<close>

lemma open_log_dumps:
  assumes start: "g_fd w = STDOUT_FILENO"
    and dir: "\<And>hist. respond E hist (Core GetConfigDir) = r" "r_ret r = 1"
    and opened: "\<And>hist. r_ret (respond E hist (File (SysOpen (log_path (r_buf r) (log_ix w))))) = d" "0 \<le> d" "d \<noteq> STDOUT_FILENO"
    and dump: "dump_forwards E" "\<And>hist. respond E hist (Proc SysDlIterate) = l"
  shows "yields (open_log E w) (\<lambda>w'. g_fd w' = d \<and> log_ix w' = log_ix w \<and>
    contents (calls w') d = contents (calls w) d @ version_line E @ concat (map (load_line E) (zip (r_hosts l) (r_items l))) \<and>
    (\<forall>e. e \<noteq> d \<longrightarrow> contents (calls w') e = contents (calls w) e) \<and> opens (calls w') = opens (calls w) + 1 \<and>
    core_load_addr w' = last (core_load_addr w # map snd (filter (is_core E) (zip (r_hosts l) (r_items l)))) \<and>
    smb_load_addr w' = last (smb_load_addr w # map snd (filter (is_smb E) (zip (r_hosts l) (r_items l)))))"
    (is "yields _ ?Q")
proof -
  let ?libs = "zip (r_hosts l) (r_items l)"
  define Q where "Q = ?Q"
  have o: "r_ret x = d" if "answers E (File (SysOpen (log_path (r_buf r) (log_ix w)))) v x" for v x
    using opened(1) that by (simp add: answers_def)
  have d: "yields (core_process_dump_libs E v) Q"
    if v: "g_fd v = d" "log_ix v = log_ix w" "contents (calls v) d = contents (calls w) d @ version_line E"
      "\<forall>e. e \<noteq> d \<longrightarrow> contents (calls v) e = contents (calls w) e" "opens (calls v) = opens (calls w) + 1"
      "core_load_addr v = core_load_addr w" "smb_load_addr v = smb_load_addr w" for v
  proof -
    let ?v = "logged (Proc SysDlIterate) l v"
    have v': "g_fd ?v = d" using v(1) by simp
    have "core_process_dump_libs E v = run_ops (process_dump_libs_callback E) ?libs ?v"
      using dump(1) v(1) opened(3) by (simp add: dump_forwards_def ofc_process_dump_libs_impl_def call_known(1) [OF dump(2)])
    moreover have "yields (run_ops (process_dump_libs_callback E) ?libs ?v) Q"
      unfolding Q_def
      by (rule yields_mono [OF yields_and_returns [OF dump_libs_run [OF v' opened(3)] dump_libs_frame [OF v' opened(3)]]])
         (use v in \<open>auto simp: log_frame_def opens_def simp del: load_line.simps\<close>)
    ultimately show ?thesis by simp
  qed
  have "yields (open_log E w) Q"
    using start dir(2) opened(2,3)
    by (subst open_log.simps) (auto simp: call_known(1) [OF dir(1)] Let_def wp o opens_def split: call_splits intro!: d)
  then show ?thesis by (simp add: Q_def)
qed

text \<open>
  C11. From the first message on, the log file holds the version line, then a line for each
  loaded library of OpenFiles in the order of the walk, then all messages in order and in full;
  nothing goes to any other file. The walk leaves the load addresses of the last core and SMB
  library among them. The file is opened once and never closed or exchanged, however long it
  grows: fstat returns 0 or -1, so the branch that rotates the log is never taken.
\<close>

theorem log_session:
  assumes start: "g_fd w = STDOUT_FILENO"
    and dir: "\<And>hist. respond E hist (Core GetConfigDir) = r" "r_ret r = 1"
    and opened: "\<And>hist. r_ret (respond E hist (File (SysOpen (log_path (r_buf r) (log_ix w))))) = d" "0 \<le> d" "d \<noteq> STDOUT_FILENO"
    and dump: "dump_forwards E" "\<And>hist. respond E hist (Proc SysDlIterate) = l"
    and stat: "fstat_ok E" and ms: "ms \<noteq> []" "\<forall>m\<in>set ms. length (text_of m) < 2 ^ 64"
  shows "yields (run_ops (write_message E) ms w) (\<lambda>w'. g_fd w' = d \<and> log_ix w' = log_ix w \<and>
    contents (calls w') d = contents (calls w) d @ version_line E @
      concat (map (load_line E) (zip (r_hosts l) (r_items l))) @ concat (map text_of ms) \<and>
    (\<forall>e. e \<noteq> d \<longrightarrow> contents (calls w') e = contents (calls w) e) \<and> opens (calls w') = opens (calls w) + 1 \<and>
    core_load_addr w' = last (core_load_addr w # map snd (filter (is_core E) (zip (r_hosts l) (r_items l)))) \<and>
    smb_load_addr w' = last (smb_load_addr w # map snd (filter (is_smb E) (zip (r_hosts l) (r_items l)))))"
    (is "yields _ ?Q")
proof -
  obtain m ms' where cons: "ms = m # ms'" using ms(1) by (cases ms) auto
  from yieldsE [OF open_log_dumps [OF start dir opened dump]] obtain v where v: "open_log E w = Some v"
    "g_fd v = d" "log_ix v = log_ix w"
    "contents (calls v) d = contents (calls w) d @ version_line E @ concat (map (load_line E) (zip (r_hosts l) (r_items l)))"
    "\<forall>e. e \<noteq> d \<longrightarrow> contents (calls v) e = contents (calls w) e" "opens (calls v) = opens (calls w) + 1"
    "core_load_addr v = last (core_load_addr w # map snd (filter (is_core E) (zip (r_hosts l) (r_items l))))"
    "smb_load_addr v = last (smb_load_addr w # map snd (filter (is_smb E) (zip (r_hosts l) (r_items l))))"
    by blast
  have first: "write_message E m w = ofc_write_console_impl E (text_of m) v"
    using ms(2) start opened(3) v(1,2)
    by (cases m) (simp_all add: cons ofc_write_log_impl_def ofc_write_stdout_impl_def ofc_write_console_impl_def
        unat_of_nat Let_def)
  have "run_ops (write_message E) ms w = run_ops (write_message E) (ConsoleMessage (text_of m) # ms') v"
    by (simp add: cons first)
  moreover have "\<forall>m\<in>set (ConsoleMessage (text_of m) # ms'). length (text_of m) < 2 ^ 64" using ms(2) by (simp add: cons)
  from yields_and_returns [OF log_only_grows [OF stat v(2) opened(3) this] messages_frame [OF stat opened(3) v(2)]]
  have "yields (run_ops (write_message E) (ConsoleMessage (text_of m) # ms') v) ?Q"
    by (rule yields_mono) (simp add: v log_frame_def cons del: load_line.simps)
  ultimately show ?thesis by simp
qed

section \<open>An instance\<close>

text \<open>The dispatcher of the core linked to the process part.\<close>

definition log_linked :: "env \<Rightarrow> env" where
  "log_linked E = E\<lparr>core_process_dump_libs := ofc_process_dump_libs_impl E\<rparr>"

lemma callback_linked:
  "g_fd w \<noteq> STDOUT_FILENO \<Longrightarrow> process_dump_libs_callback (log_linked E) lib w = process_dump_libs_callback E lib w"
  by (cases lib) (simp add: process_dump_libs_callback_def ofc_write_console_impl_def call_void_def call_def log_linked_def Let_def)

lemma log_linked_forwards: "dump_forwards (log_linked E)"
proof -
  have "run_ops (process_dump_libs_callback (log_linked E)) libs v = run_ops (process_dump_libs_callback E) libs v"
    if "g_fd v = d" "d \<noteq> STDOUT_FILENO" for libs v d
    using that
  proof (induction libs arbitrary: v)
    case (Cons lib libs)
    have "g_fd u = d" if "process_dump_libs_callback E lib v = Some u" for u
      using returns_D [OF dump_libs_frame [OF Cons.prems, of E "[lib]"]] that by (simp add: log_frame_def)
    with Cons show ?case
      by (cases "process_dump_libs_callback E lib v") (simp_all add: callback_linked)
  qed simp
  then show ?thesis
    by (simp add: dump_forwards_def ofc_process_dump_libs_impl_def call_def log_linked_def Let_def)
qed

text \<open>A directory for the log, and the libraries of \<open>proc_env\<close>.\<close>

definition session_env :: env where
  "session_env = log_linked ((proc_env 0)\<lparr>respond := \<lambda>hist c. case c of
     Core GetConfigDir \<Rightarrow> no_resp\<lparr>r_ret := 1, r_buf := bytes ''/data''\<rparr>
   | File (SysOpen p) \<Rightarrow> no_resp\<lparr>r_ret := 5\<rparr>
   | Proc SysDlIterate \<Rightarrow> no_resp\<lparr>r_hosts := [bytes ''libc'', bytes ''smb'', bytes ''core''], r_items := [0x1000, 0x2000, 0x3000]\<rparr>
   | _ \<Rightarrow> no_resp\<rparr>)"

theorem log_session_witness:
  "yields (run_ops (write_message session_env) [LogMessage (bytes ''a''), ConsoleMessage (bytes ''b'')] empty_world) (\<lambda>w'.
     g_fd w' = 5 \<and> contents (calls w') 5 = bytes ''OpenFileslibof_smb_jnilibof_core_jniab'' \<and>
     ofc_process_relative_addr_impl 0x3010 w' = 0x10)"
proof -
  have r: "respond session_env hist (Core GetConfigDir) = no_resp\<lparr>r_ret := 1, r_buf := bytes ''/data''\<rparr>"
    "respond session_env hist (Proc SysDlIterate) = no_resp\<lparr>
      r_hosts := [bytes ''libc'', bytes ''smb'', bytes ''core''], r_items := [0x1000, 0x2000, 0x3000]\<rparr>"
    "fstat_ok session_env" "dump_forwards session_env" for hist
    by (simp_all add: session_env_def fstat_ok_def log_linked_forwards) (simp_all add: log_linked_def no_resp_def)
  show ?thesis
    by (rule yields_mono [OF log_session [OF _ r(1) _ _ _ _ r(4) r(2) r(3)]])
       (auto simp: no_resp_def session_env_def log_linked_def proc_env_def ref_env_def is_core_def is_smb_def
         bytes_def empty_world_def ofc_process_relative_addr_impl_def relative_addr_def)
qed

end
