(* ===== verification/OFC_Profile.thy ===== *)
theory OFC_Profile
  imports OFC_Backtrace
begin

text \<open>
  The call frames that the compiler's hooks keep when the code is built with \<open>__cyg_profile\<close>
  (first part of src/src/thread\_android.c), and the stack trace that reads them (the branch of
  src/src/backtrace\_android.c under the same option). Each thread has an array of frames and,
  under the key \<open>frame_var\<close>, a pointer to the frame of the function it is in. The lemmas relate the
  array to the stack of the calls that are active.
\<close>

section \<open>Operations\<close>

text \<open>A frame's fields are \<open>None\<close> before they are written; the addresses of the array's frames are 16 bytes apart.\<close>

record cyg_frame =
  this_fn :: "ptr option"
  call_site :: "ptr option"

text \<open>The key, the values the running thread has under all keys, and the frames in memory.\<close>

record profiled =
  frame_var :: "32 word"
  specific :: "32 word \<Rightarrow> ptr"
  frame_mem :: "ptr \<rightharpoonup> cyg_frame"

definition cyg_profile_func_enter :: "ptr \<Rightarrow> ptr \<Rightarrow> profiled \<Rightarrow> profiled option" where
  "cyg_profile_func_enter fn site t =
     (if frame_var t \<noteq> -1 then
        let frame_ptr = specific t (frame_var t) in
        if frame_ptr \<noteq> OFC_NULL then
          let frame_ptr = frame_ptr + 16;
              t = t\<lparr>specific := (specific t)(frame_var t := frame_ptr)\<rparr>
          in case frame_mem t frame_ptr of
               None \<Rightarrow> None
             | Some f \<Rightarrow> Some (t\<lparr>frame_mem := (frame_mem t)(frame_ptr \<mapsto> f\<lparr>this_fn := Some fn, call_site := Some site\<rparr>)\<rparr>)
        else Some t
      else Some t)"

definition cyg_profile_func_exit :: "ptr \<Rightarrow> ptr \<Rightarrow> profiled \<Rightarrow> profiled" where
  "cyg_profile_func_exit fn site t =
     (if frame_var t \<noteq> -1 then
        let frame_ptr = specific t (frame_var t) in
        if frame_ptr \<noteq> OFC_NULL then
          let frame_ptr = frame_ptr - 16
          in t\<lparr>specific := (specific t)(frame_var t := frame_ptr)\<rparr>
        else t
      else t)"

definition cyg_profile_return_address :: "int \<Rightarrow> profiled \<Rightarrow> ptr option" where
  "cyg_profile_return_address level t =
     (if frame_var t \<noteq> -1 then
        let frame_ptr = specific t (frame_var t) in
        if frame_ptr \<noteq> OFC_NULL then do {
          f \<leftarrow> frame_mem t (frame_ptr - 16 * word_of_int level);
          call_site f
        } else Some OFC_NULL
      else Some OFC_NULL)"

text \<open>What \<open>dladdr\<close> finds for an address is an argument: nothing, or an entry with or without a name.\<close>

definition cyg_profile_addr2sym :: "(ptr \<Rightarrow> string option option) \<Rightarrow> ptr \<Rightarrow> string" where
  "cyg_profile_addr2sym dladdr address =
     (case dladdr address of Some (Some name) \<Rightarrow> name | _ \<Rightarrow> ''unknown'')"

definition ofc_backtrace_profiled :: "profiled \<Rightarrow> ptr list \<Rightarrow> 64 word \<Rightarrow> ptr list option" where
  "ofc_backtrace_profiled t trace len = do {
     trace \<leftarrow> (if len > 0 then do { a \<leftarrow> cyg_profile_return_address 0 t; store 0 a trace } else Some trace);
     trace \<leftarrow> (if len > 1 then do { a \<leftarrow> cyg_profile_return_address 1 t; store 1 a trace } else Some trace);
     trace \<leftarrow> (if len > 2 then do { a \<leftarrow> cyg_profile_return_address 2 t; store 2 a trace } else Some trace);
     trace \<leftarrow> (if len > 3 then do { a \<leftarrow> cyg_profile_return_address 3 t; store 3 a trace } else Some trace);
     if len > 4 then do { a \<leftarrow> cyg_profile_return_address 4 t; store 4 a trace } else Some trace
   }"

section \<open>The stack of active calls\<close>

text \<open>
  A thread enters and leaves functions. The specification is the stack of the calls that are
  active, the innermost first; there is room for \<open>n\<close>.
\<close>

datatype traced = Enter ptr ptr | Leave ptr ptr

fun traced_step :: "traced \<Rightarrow> profiled \<Rightarrow> profiled option" where
  "traced_step (Enter fn site) t = cyg_profile_func_enter fn site t"
| "traced_step (Leave fn site) t = Some (cyg_profile_func_exit fn site t)"

fun run_traced :: "traced list \<Rightarrow> profiled \<Rightarrow> profiled option" where
  "run_traced [] t = Some t"
| "run_traced (c # cs) t = do { t \<leftarrow> traced_step c t; run_traced cs t }"

fun call_stack :: "nat \<Rightarrow> traced list \<Rightarrow> (ptr \<times> ptr) list \<Rightarrow> (ptr \<times> ptr) list option" where
  "call_stack n [] st = Some st"
| "call_stack n (Enter fn site # cs) st = (if length st < n then call_stack n cs ((fn, site) # st) else None)"
| "call_stack n (Leave fn site # cs) st = (if st = [] then None else call_stack n cs (tl st))"

text \<open>The array: \<open>base\<close> is the frame of the thread's first function, and \<open>n\<close> frames follow it.\<close>

definition frame_at :: "ptr \<Rightarrow> nat \<Rightarrow> ptr" where
  "frame_at base i = base + 16 * of_nat i"

definition frames_of :: "ptr \<Rightarrow> nat \<Rightarrow> (ptr \<times> ptr) list \<Rightarrow> profiled \<Rightarrow> bool" where
  "frames_of base n st t \<longleftrightarrow> frame_var t \<noteq> -1 \<and> base \<noteq> OFC_NULL \<and> unat base + 16 * Suc n < 2 ^ 64 \<and> length st \<le> n \<and>
     specific t (frame_var t) = frame_at base (length st) \<and>
     (\<forall>i\<le>n. frame_mem t (frame_at base i) \<noteq> None) \<and> frame_mem t (frame_at base (Suc n)) = None \<and>
     map_option call_site (frame_mem t base) = Some None \<and>
     (\<forall>i<length st. map_option call_site (frame_mem t (frame_at base (Suc i))) = Some (Some (snd (rev st ! i))))"

lemma unat_frame_at: "unat base + 16 * i < 2 ^ 64 \<Longrightarrow> unat (frame_at base i) = unat base + 16 * i"
proof -
  assume a: "unat base + 16 * i < 2 ^ 64"
  have "frame_at base i = of_nat (unat base + 16 * i)" by (simp add: frame_at_def)
  then have "unat (frame_at base i) = (unat base + 16 * i) mod 2 ^ 64" by (simp only: unat_of_nat) simp
  with a show ?thesis by (simp only: mod_less)
qed

lemma within_array:
  assumes "unat base + 16 * Suc n < 2 ^ 64" "i \<le> Suc n"
  shows "unat (frame_at base i) = unat base + 16 * i"
proof -
  have "unat base + 16 * i \<le> unat base + 16 * Suc n" using assms(2) by (simp only: add_le_cancel_left mult_le_mono2)
  from unat_frame_at [OF le_less_trans [OF this assms(1)]] show ?thesis .
qed

lemma frame_at_inj:
  assumes "unat base + 16 * Suc n < 2 ^ 64" "i \<le> Suc n" "j \<le> Suc n"
  shows "frame_at base i = frame_at base j \<longleftrightarrow> i = j"
proof
  assume "frame_at base i = frame_at base j"
  then have "unat base + 16 * i = unat base + 16 * j"
    by (simp only: within_array [OF assms(1,2), symmetric] within_array [OF assms(1,3), symmetric])
  then show "i = j" by simp
qed simp

lemma frame_at_null:
  assumes "base \<noteq> OFC_NULL" "unat base + 16 * Suc n < 2 ^ 64" "i \<le> Suc n"
  shows "frame_at base i \<noteq> OFC_NULL"
proof
  assume "frame_at base i = OFC_NULL"
  with within_array [OF assms(2,3)] have "unat base = 0" by simp
  with assms(1) show False by (simp add: unat_eq_zero)
qed

lemma frame_at_steps: "frame_at base i + 16 = frame_at base (Suc i)" "frame_at base (Suc i) - 16 = frame_at base i"
  "frame_at base 0 = base" "k \<le> i \<Longrightarrow> frame_at base i - 16 * of_nat k = frame_at base (i - k)"
  by (simp_all add: frame_at_def algebra_simps)

text \<open>One call, or one return, and the stack.\<close>

lemma frames_ofD:
  assumes "frames_of base n st t"
  shows "frame_var t \<noteq> -1" "specific t (frame_var t) = frame_at base (length st)" "length st \<le> n"
    "frame_at base (length st) \<noteq> OFC_NULL"
    "i \<le> Suc n \<Longrightarrow> j \<le> Suc n \<Longrightarrow> frame_at base i = frame_at base j \<longleftrightarrow> i = j"
  using assms frame_at_null [of base n "length st"] frame_at_inj [of base n i j]
  by (simp_all add: frames_of_def)

lemma enter_pushes:
  assumes fr: "frames_of base n st t" and room: "length st < n"
  shows "\<exists>t'. cyg_profile_func_enter fn site t = Some t' \<and> frames_of base n ((fn, site) # st) t'"
proof -
  have inj: "frame_at base i = frame_at base j \<longleftrightarrow> i = j" if "i \<le> Suc n" "j \<le> Suc n" for i j
    by (rule frames_ofD(5) [OF fr that])
  obtain f where f: "frame_mem t (frame_at base (Suc (length st))) = Some f"
    using fr room by (fastforce simp: frames_of_def)
  let ?t = "t\<lparr>specific := (specific t)(frame_var t := frame_at base (Suc (length st))),
    frame_mem := (frame_mem t)(frame_at base (Suc (length st)) \<mapsto> f\<lparr>this_fn := Some fn, call_site := Some site\<rparr>)\<rparr>"
  have "cyg_profile_func_enter fn site t = Some ?t"
    using frames_ofD(1,2,4) [OF fr] f by (simp add: cyg_profile_func_enter_def frame_at_steps Let_def)
  moreover have "frames_of base n ((fn, site) # st) ?t"
    using fr room inj [of "Suc n" "Suc (length st)"] inj [of 0 "Suc (length st)"]
    by (auto simp: frames_of_def frame_at_steps(3) inj nth_append less_Suc_eq)
  ultimately show ?thesis by blast
qed

lemma enter_overflows:
  assumes fr: "frames_of base n st t" and full: "length st = n"
  shows "cyg_profile_func_enter fn site t = None"
  using frames_ofD(1,2,4) [OF fr] fr full
  by (simp add: cyg_profile_func_enter_def frame_at_steps frames_of_def Let_def)

lemma exit_pops:
  assumes fr: "frames_of base n (c # st) t"
  shows "frames_of base n st (cyg_profile_func_exit fn site t)"
  using frames_ofD(1,2,4) [OF fr] fr
  by (auto simp: cyg_profile_func_exit_def frame_at_steps frames_of_def Let_def nth_append split: if_splits)

lemma return_address_reads:
  assumes fr: "frames_of base n st t" and k: "k < length st"
  shows "cyg_profile_return_address (int k) t = Some (snd (st ! k))"
proof -
  let ?i = "length st - Suc k"
  have "map_option call_site (frame_mem t (frame_at base (Suc ?i))) = Some (Some (snd (rev st ! ?i)))"
    using fr k by (auto simp: frames_of_def)
  moreover have "rev st ! ?i = st ! k" "Suc ?i = length st - k" using k by (simp_all add: rev_nth Suc_diff_Suc)
  ultimately show ?thesis
    using frames_ofD(1,2,4) [OF fr] frame_at_steps(4) [of k "length st" base] k
    by (auto simp: cyg_profile_return_address_def Let_def)
qed

lemma return_address_below:
  assumes fr: "frames_of base n st t"
  shows "cyg_profile_return_address (int (length st)) t = None"
  using frames_ofD(1,2,4) [OF fr] frame_at_steps(3) [of base] frame_at_steps(4) [of "length st" "length st" base] fr
  by (auto simp: cyg_profile_return_address_def frames_of_def Let_def)

text \<open>The trace is that of the other builds, with the recorded call sites as return addresses.\<close>

lemma profiled_follows:
  assumes "\<And>k. k < 5 \<Longrightarrow> k < unat len \<Longrightarrow> cyg_profile_return_address (int k) t = Some (f k)"
  shows "ofc_backtrace_profiled t trace len = ofc_backtrace_impl f trace len"
proof -
  have lt: "0 < len \<longleftrightarrow> 0 < unat len" "1 < len \<longleftrightarrow> 1 < unat len" "2 < len \<longleftrightarrow> 2 < unat len"
    "3 < len \<longleftrightarrow> 3 < unat len" "4 < len \<longleftrightarrow> 4 < unat len"
    by (simp_all add: word_less_nat_alt)
  show ?thesis
    using assms [of 0] assms [of 1] assms [of 2] assms [of 3] assms [of 4]
    by (simp add: ofc_backtrace_profiled_def ofc_backtrace_impl_def lt cong: if_cong)
qed

lemma stack_followed:
  "frames_of base n st t \<Longrightarrow> call_stack n cs st = Some st' \<Longrightarrow>
   \<exists>t'. run_traced cs t = Some t' \<and> frames_of base n st' t'"
proof (induction n cs st arbitrary: t rule: call_stack.induct)
  case (2 n fn site cs st)
  then have room: "length st < n" by (auto split: if_splits)
  from enter_pushes [OF 2(2) room] obtain u where "cyg_profile_func_enter fn site t = Some u" "frames_of base n ((fn, site) # st) u"
    by blast
  with 2(1) [OF room] 2(3) room show ?case by simp
next
  case (3 n fn site cs st)
  then obtain c st1 where st: "st = c # st1" by (cases st) auto
  from exit_pops 3 st show ?case by simp
qed simp

text \<open>
  C10. The compiler hooks refine a stack: after any nested sequence of calls and returns that
  fits into a thread's array of frames, a stack trace gives the call sites of the innermost
  active calls, in order. Reading further than the outermost call reads a frame that was never
  written, and a call beyond the last frame writes outside the array.
\<close>

theorem calls_recorded:
  assumes fr: "frames_of base n [] t" and cs: "call_stack n cs [] = Some st"
  shows "\<exists>t'. run_traced cs t = Some t' \<and>
    (\<forall>len trace. unat len \<le> length st \<and> unat len \<le> length trace \<longrightarrow> ofc_backtrace_profiled t' trace len =
       Some (map snd (take (min 5 (unat len)) st) @ drop (min 5 (unat len)) trace)) \<and>
    cyg_profile_return_address (int (length st)) t' = None \<and>
    (length st = n \<longrightarrow> (\<forall>fn site. cyg_profile_func_enter fn site t' = None))"
proof -
  from stack_followed [OF fr cs] obtain t' where t': "run_traced cs t = Some t'" and fr': "frames_of base n st t'" by blast
  have "ofc_backtrace_profiled t' trace len = Some (map snd (take (min 5 (unat len)) st) @ drop (min 5 (unat len)) trace)"
    if len: "unat len \<le> length st" "unat len \<le> length trace" for len :: "64 word" and trace
  proof -
    have "ofc_backtrace_profiled t' trace len = ofc_backtrace_impl (\<lambda>k. snd (st ! k)) trace len"
      by (rule profiled_follows) (use len(1) in \<open>auto intro!: return_address_reads [OF fr']\<close>)
    moreover have "map (\<lambda>k. snd (st ! k)) [0..<min 5 (unat len)] = map snd (take (min 5 (unat len)) st)"
      using len(1) by (intro nth_equalityI) auto
    ultimately show ?thesis by (simp add: backtrace_fills [OF len(2)])
  qed
  with t' return_address_below [OF fr'] enter_overflows [OF fr'] show ?thesis by blast
qed

text \<open>Two calls on an array with room for two: the trace names both call sites.\<close>

definition two_frames :: profiled where
  "two_frames = \<lparr>frame_var = 3, specific = (\<lambda>_. 160),
     frame_mem = (\<lambda>p. if p \<in> {160, 176, 192} then Some \<lparr>this_fn = None, call_site = None\<rparr> else None)\<rparr>"

theorem calls_recorded_witness:
  "\<exists>t'. run_traced [Enter 1 10, Enter 2 20, Leave 2 20, Enter 3 30] two_frames = Some t' \<and>
     ofc_backtrace_profiled t' [0, 0, 0] 2 = Some [30, 10, 0] \<and> cyg_profile_func_enter 4 40 t' = None"
proof -
  have small: "i = 0 \<or> i = 1 \<or> i = 2" if "i \<le> 2" for i :: nat using that by linarith
  have fr: "frames_of 160 2 [] two_frames"
    by (auto simp: frames_of_def two_frames_def frame_at_def dest: small)
  from calls_recorded [OF fr, of "[Enter 1 10, Enter 2 20, Leave 2 20, Enter 3 30]" "[(3, 30), (1, 10)]"] show ?thesis
    by (fastforce simp: dest: spec [of _ 2])
qed

end
