(* ===== verification/Spec2Isabelle.thy ===== *)
theory Spec2Isabelle
  imports OFC_Prelude OFC_Reference OFC_Socket OFC_WaitPipe OFC_Event OFC_Waitset OFC_Thread
    OFC_Lock OFC_Net OFC_Time OFC_Console OFC_Process OFC_Env OFC_Backtrace
    OFC_Race OFC_WaitMixed OFC_Session OFC_Profile
begin

text \<open>
  \<^bold>\<open>Verification of the Android platform layer of OpenFiles (of\_core\_android).\<close>

  The repository is the part of OpenFiles that differs from platform to platform. OpenFiles' core
  calls it for events, wait sets, threads, locks, sockets, network interfaces, clocks, processes,
  the log, settings and stack traces; it calls the Android kernel, the C library and POSIX threads,
  and the core's own packages (heap, handles, queues, wait queues, timers, files). All of the
  logic is in eleven C files under src/src/, and each of them is modelled by a theory.

  \<^bold>\<open>How the parts interact.\<close> A wait set is a pipe and a queue of handles. Setting an event that
  belongs to a set raises the flag of the event and writes its handle to the pipe. A thread that
  waits on a set discards what is in the pipe, tests every handle of the set, and then sleeps in
  \<open>poll\<close> on the pipe and the descriptors of the sockets, until the time of the nearest timer.
  Deleting a thread raises a flag in its structure and writes the null handle to the pipe of the
  set it waits on. A thread announces its end through an event. The log asks the process part for
  the libraries that are loaded, and that part writes them to the log; the relative addresses
  that locks record are computed from the libraries' load addresses.

  \<^bold>\<open>The model.\<close> Every function of the source is a HOL function of the same name from an
  environment, its arguments and a state to an option. The state (\<open>world\<close>) has one heap for each
  structure type of the source, the static variables, and the history of all calls to the outside
  with their answers. The environment answers each call, and its answer may depend on the whole
  history. Nothing is assumed of it in general: a property that rests on documented behaviour of
  the outside names it as a hypothesis (a live handle locks to its pointer, \<open>locks_to\<close>; the
  allocator does not hand out a block twice, \<open>fresh_alloc\<close>; queues are first-in first-out,
  \<open>queue_fifo\<close>; the byte-order macros are inverse to each other, \<open>net_order_ok\<close>; the event types
  are different bits, \<open>event_bits_ok\<close>; the FAT codec unpacks what it packs, \<open>dos_codec_ok\<close>; a pipe
  delivers what is read from it in order, \<open>feeds\<close>; a pipe holds what was written and not yet read and
  refuses a write only when it is not empty, \<open>pipe_law\<close>; \<open>poll\<close> does not sleep while there is
  something in the pipe, \<open>poll_law\<close>). A witness shows for each such property that
  the hypotheses can hold, on an environment of OFC_Reference or one beside the property.

  \<open>None\<close> is undefined behaviour of C: following a null or dangling pointer, reading memory outside
  an object or before it was written, indexing outside a table. For the few functions that may not
  return (draining a pipe, opening the log, an endless sleep), which are partial functions, it
  also stands for not returning. Where a property says that a function returns, it is stated with
  \<open>yields\<close>, which excludes \<open>None\<close>; \<open>returns\<close> states what holds if it does return. No fuel is used:
  the other loops are structural, or have a measure.

  \<^bold>\<open>The theories.\<close>
  \<^item> OFC_Prelude: C types, the calls to the outside, the structures and the state, calls and their
    automation, counting of locks and blocks, and the two interfaces that the components share:
    \<open>lock_discipline\<close> (a sequence of operations releases the handles it locks) and
    \<open>structure_owner\<close> (structures in memory sit in allocated blocks). Every component with
    structures on the heap interprets them on its own step function.
  \<^item> OFC_Reference: a concrete environment for the witnesses.
  \<^item> OFC_Socket (socket\_android.c): socket addresses as bytes, every socket operation; round trips
    of addresses and of event masks, what a new, an accepted and a closed socket are.
  \<^item> OFC_WaitPipe (first part of waitset\_android.c): creating and destroying a wait set, signalling
    and waking it.
  \<^item> OFC_Event (event\_android.c): the operations; a specification by a table from handles to types
    and flags, and the simulation of every sequence of operations by it; the interface
    \<open>event_services\<close> that a wait set relies on, interpreted on the operations; the interleavings
    of threads that execute the critical sections of set, reset and wait (\<open>threads_step\<close>).
  \<^item> OFC_Waitset (the rest of waitset\_android.c): the scan, the poll, adding handles. Which handle a
    wait returns for sets of events, sockets and timers, what it consumes, and that it gives back
    what it takes. Here the dispatchers of the core are linked to the event model (\<open>linked\<close>).
  \<^item> OFC_WaitMixed: the result of a wait on a set of handles of different kinds, each kind given by
    its answers and its structure (\<open>waitable\<close>), for every answer of the poll.
  \<^item> OFC_Race: the wait of the code on a set of events while other threads call the code's set, reset
    and wake (\<open>among_others\<close>: they act around every access of the waiting thread to an event). The
    pipe is read off the history, refused writes included. No set of an event is slept through, the
    wait ends, a wake written before the purge has ended is lost.
  \<^item> OFC_Thread (thread\_android.c): the life of joinable and detached threads, deletion, sleeping.
    It uses the events and wait sets through \<open>linked\<close>.
  \<^item> OFC_Lock (lock\_android.c): recursive locks and how often they are held.
  \<^item> OFC_Net (net\_android.c): the two scans over the interfaces and their agreement, resolved names, and
    the search for a service.
  \<^item> OFC_Time (time\_android.c): the two conversions between seconds and calendar fields against the
    Gregorian calendar, FAT dates, clocks.
  \<^item> OFC_Console (console\_android.c): the log file, what reaches it and when it cannot be opened.
  \<^item> OFC_Process (process\_android.c): starting a daemon by two forks, ending processes, load
    addresses. It writes through the console.
  \<^item> OFC_Session: the log and the process part linked to each other; the whole contents of the log.
  \<^item> OFC_Env (env\_android.c) and OFC_Backtrace (backtrace\_android.c): settings and stack traces.
  \<^item> OFC_Profile (the part of thread\_android.c and backtrace\_android.c under \<open>__cyg_profile\<close>): the
    frames that the compiler's hooks record, and their refinement of the stack of active calls.

  \<^bold>\<open>Other threads.\<close> An operation during which a thread sleeps takes as an argument what the others
  do to the structures meanwhile, so its properties hold for every behaviour of theirs that the
  hypotheses allow. Otherwise operations are atomic in the model; the operations on one event
  are serialised by its mutex in the source. Two theories have finer grain, both over the functions
  of the code: the threads that set, reset and wait on events (OFC_Event), where a wait is two
  critical sections, before and after \<open>pthread_cond_wait\<close>; and a wait on a set among threads that
  set its events (OFC_Race), where the others act between any two accesses of the wait to an event.

  \<^bold>\<open>Options.\<close> \<open>OFC_STACK_TRACE\<close>, \<open>OFC_FS_ANDROID\<close> and \<open>OF_RESOLVER_FS\<close> are fields of the environment,
  so the properties hold with and without them. \<open>OFC_KERBEROS\<close> is on; \<open>LOG_TO_FILE\<close> is defined by
  the source itself. A \<open>long\<close> and a pointer have 64 bits, bytes are in little-endian order.

  \<^bold>\<open>Not modelled.\<close> The attachment to a Java machine (\<open>OFC_INCLUDE_JNI\<close>) in thread\_android.c: the
  model has this option off, and the code under it only calls functions outside the repository.
  The start of a thread under \<open>__cyg_profile\<close>, which takes the thread's frames from a member that its
  structure does not have. The bodies under \<open>#if 0\<close> in net\_android.c
  and process\_android.c, and the branches without \<open>LOG_TO_FILE\<close> in console\_android.c, are not
  compiled. include/ofc\_android/fs\_android.h holds declarations only; the file system they belong
  to is not in the repository.
\<close>

end
